theory Spec2Isabelle
  imports Main "HOL-Library.Sublist"
begin

section \<open>Values of the container model\<close>

text \<open>
  The Python values that the configuration code handles: \<open>None\<close>, booleans, integers,
  strings, dictionaries with string keys and lists.  A dictionary is an association list
  in insertion order (the order that \<open>dict\<close> and \<open>OrderedDict\<close> iterate in); the
  dictionaries built by the code below are built with \<open>dict_set\<close>, which keeps the keys
  distinct.
\<close>

datatype val =
    VNone
  | VBool bool
  | VInt int
  | VStr string
  | VDict "(string \<times> val) list"
  | VList "val list"

text \<open>The exceptions that the modelled code can raise.\<close>

datatype exn = TypeError | KeyError string | AttributeError

text \<open>Python truthiness, as used by \<open>if x:\<close> and \<open>not x\<close>.\<close>

fun truthy :: "val \<Rightarrow> bool" where
  "truthy VNone = False"
| "truthy (VBool b) = b"
| "truthy (VInt i) = (i \<noteq> 0)"
| "truthy (VStr s) = (s \<noteq> [])"
| "truthy (VDict d) = (d \<noteq> [])"
| "truthy (VList xs) = (xs \<noteq> [])"

text \<open>\<open>d[k] = v\<close> on a dictionary: an existing key keeps its place, a new key goes last.\<close>

fun dict_set :: "string \<Rightarrow> 'v \<Rightarrow> (string \<times> 'v) list \<Rightarrow> (string \<times> 'v) list" where
  "dict_set k v [] = [(k, v)]"
| "dict_set k v (p # ps) = (if fst p = k then (k, v) # ps else p # dict_set k v ps)"

section \<open>Path addressing (getset.py)\<close>

text \<open>\<open>sep.join(keys)\<close>.\<close>

fun join :: "string \<Rightarrow> string list \<Rightarrow> string" where
  "join sep [] = []"
| "join sep [x] = x"
| "join sep (x # y # ys) = x @ sep @ join sep (y # ys)"

definition str_path :: "string list \<Rightarrow> string" where
  "str_path keys = join ''.'' keys"

text \<open>\<open>key in s\<close> for two strings: \<open>key\<close> occurs in \<open>s\<close> as a contiguous substring.\<close>

fun is_substr :: "string \<Rightarrow> string \<Rightarrow> bool" where
  "is_substr k [] = (k = [])"
| "is_substr k (c # cs) = (prefix k (c # cs) \<or> is_substr k cs)"

text \<open>
  \<open>key in dic\<close> with a string key.  A dictionary tests its keys, a list tests its
  elements for equality, a string tests for a substring; \<open>None\<close>, booleans and integers
  are not iterable and raise \<open>TypeError\<close>.
\<close>

fun py_contains :: "string \<Rightarrow> val \<Rightarrow> exn + bool" where
  "py_contains key (VDict d) = Inr (key \<in> set (map fst d))"
| "py_contains key (VList xs) = Inr (VStr key \<in> set xs)"
| "py_contains key (VStr s) = Inr (is_substr key s)"
| "py_contains key _ = Inl TypeError"

text \<open>
  \<open>dic[key]\<close> (\<open>operator.getitem\<close>) with a string key.  A dictionary raises
  \<open>KeyError\<close> for a missing key; lists and strings take integer indices only and the
  other values are not subscriptable, so all of them raise \<open>TypeError\<close>.
\<close>

fun py_getitem :: "val \<Rightarrow> string \<Rightarrow> exn + val" where
  "py_getitem (VDict d) key = (case map_of d key of None \<Rightarrow> Inl (KeyError key) | Some v \<Rightarrow> Inr v)"
| "py_getitem _ key = Inl TypeError"

text \<open>
  The message component of the getters' result.  \<open>Text s\<close> is the string \<open>s\<close>;
  \<open>TextWithErr s e\<close> is \<open>s\<close> followed by \<open>str(e)\<close>, whose wording belongs to the
  interpreter.
\<close>

datatype message = Text string | TextWithErr string exn

text \<open>
  \<open>_get_recur\<close>: the loop body returns in its first iteration, so the function is a
  recursion on the list of keys.  The \<open>try\<close> block is the value \<open>attempt\<close>; the handler
  catches \<open>TypeError\<close> only.
\<close>

fun get_recur :: "val \<Rightarrow> string list \<Rightarrow> string list \<Rightarrow> exn + (val \<times> message)" where
  "get_recur dic [] traversed = Inr (dic, Text [])"
| "get_recur dic (key # path_keys) traversed =
     (case (case py_contains key dic of
              Inl e \<Rightarrow> Inl e
            | Inr True \<Rightarrow>
                (case py_getitem dic key of
                   Inl e \<Rightarrow> Inl e
                 | Inr v \<Rightarrow> get_recur v path_keys (traversed @ [key]))
            | Inr False \<Rightarrow>
                Inr (VNone, Text (''Not found at: '' @ str_path (traversed @ [key])))) of
        Inl TypeError \<Rightarrow>
          Inr (VNone, TextWithErr (''Not a dict at: '' @ str_path (traversed @ [key]) @ '', err='')
                        TypeError)
      | Inl e \<Rightarrow> Inl e
      | Inr r \<Rightarrow> Inr r)"

text \<open>\<open>functools.reduce(operator.getitem, path_keys, dic)\<close>.\<close>

fun reduce_getitem :: "val \<Rightarrow> string list \<Rightarrow> exn + val" where
  "reduce_getitem dic [] = Inr dic"
| "reduce_getitem dic (key # path_keys) =
     (case py_getitem dic key of Inl e \<Rightarrow> Inl e | Inr v \<Rightarrow> reduce_getitem v path_keys)"

text \<open>\<open>_get_reduce\<close>: the handler catches \<open>TypeError\<close> and \<open>KeyError\<close>.\<close>

definition get_reduce :: "val \<Rightarrow> string list \<Rightarrow> exn + (val \<times> message)" where
  "get_reduce dic path_keys =
     (case reduce_getitem dic path_keys of
        Inr v \<Rightarrow> Inr (v, Text [])
      | Inl TypeError \<Rightarrow> Inr (VNone, TextWithErr [] TypeError)
      | Inl (KeyError k) \<Rightarrow> Inr (VNone, TextWithErr [] (KeyError k))
      | Inl e \<Rightarrow> Inl e)"

text \<open>
  Modelled from the spec: \<open>anyconfig.parser\<close> (\<open>PATH_SEPS\<close>, \<open>parse_path\<close>) is not among
  the sources.  A path expression is cut at every separator character and the empty
  segments are dropped, so that leading, trailing and repeated separators give no
  segment and a path of separators only is the root path.
\<close>

fun split_path :: "string \<Rightarrow> string \<Rightarrow> string \<Rightarrow> string list" where
  "split_path seps cur [] = (if cur = [] then [] else [cur])"
| "split_path seps cur (c # cs) =
     (if c \<in> set seps
      then (if cur = [] then split_path seps [] cs else cur # split_path seps [] cs)
      else split_path seps (cur @ [c]) cs)"

definition parse_path :: "string \<Rightarrow> string \<Rightarrow> string list" where
  "parse_path path seps = split_path seps [] path"

definition PATH_SEPS :: string where
  "PATH_SEPS = ''/.''"

text \<open>\<open>get\<close>: the getter is a parameter (\<open>_get\<close>), and its message is dropped.\<close>

definition get ::
  "val \<Rightarrow> string \<Rightarrow> string \<Rightarrow> (val \<Rightarrow> string list \<Rightarrow> exn + (val \<times> message)) \<Rightarrow> exn + val" where
  "get dic path seps getter =
     (case getter dic (parse_path path seps) of
        Inl e \<Rightarrow> Inl e
      | Inr (res, msg) \<Rightarrow> Inr res)"

text \<open>
  \<open>_mk_nested_dic\<close>: the loop over the reversed keys, with \<open>ret\<close> as the accumulator
  (\<open>None\<close> before the first iteration); a copy of a dictionary is an equal dictionary.
\<close>

definition mk_nested_dic :: "string \<Rightarrow> val \<Rightarrow> string \<Rightarrow> val" where
  "mk_nested_dic path v seps =
     foldl (\<lambda>ret key. VDict [(key, if ret = VNone then v else ret)]) VNone
       (rev (parse_path path seps))"

section \<open>The XML backend (backend/xml.py)\<close>

subsection \<open>Elements and options\<close>

text \<open>
  An ElementTree element: tag, attribute dictionary, text and the list of children.
  \<open>elem.text\<close> and the attribute values are ordinary Python attributes, so they hold any
  value (\<open>None\<close> for no text); the parser of the library stores \<open>None\<close> or a string.
\<close>

datatype elem =
  Elem (tag: string) (attrib: "(string \<times> val) list") (elem_text: val) (children: "elem list")

datatype etree = ElementTree "elem option"

text \<open>
  The keyword options that the functions pass on as \<open>**options\<close>.  A key that may be
  missing from the dictionary is an \<open>option\<close>; \<open>merge_attrs\<close> and \<open>ac_parse_value\<close>
  are only read through \<open>options.get\<close>, where a missing key counts as false.
  \<open>parse_single\<close> stands for \<open>anyconfig.parser.parse_single\<close> and \<open>py_str\<close> for
  the builtin \<open>str\<close>: neither is among the sources, and both are arguments here.
\<close>

record options =
  nspaces :: "(string \<times> string) list option"
  tags :: "(string \<times> string) list option"
  opt_attrs :: "string option"
  opt_text :: "string option"
  opt_children :: "string option"
  merge_attrs :: bool
  ac_parse_value :: bool
  parse_single :: "val \<Rightarrow> val"
  py_str :: "val \<Rightarrow> string"

text \<open>The marker a function uses: the option, or the default of its parameter.\<close>

definition attrs_key :: "options \<Rightarrow> string" where
  "attrs_key opts = (case opt_attrs opts of Some k \<Rightarrow> k | None \<Rightarrow> ''@attrs'')"

definition text_key :: "options \<Rightarrow> string" where
  "text_key opts = (case opt_text opts of Some k \<Rightarrow> k | None \<Rightarrow> ''@text'')"

definition children_key :: "options \<Rightarrow> string" where
  "children_key opts = (case opt_children opts of Some k \<Rightarrow> k | None \<Rightarrow> ''@children'')"

text \<open>\<open>dict(pairs)\<close>: the pairs are stored one after the other.\<close>

definition dict_of :: "(string \<times> 'v) list \<Rightarrow> (string \<times> 'v) list" where
  "dict_of kvs = foldl (\<lambda>d (k, v). dict_set k v d) [] kvs"

subsection \<open>Namespaces\<close>

text \<open>
  The characters that \<open>str.strip\<close> removes and that \<open>\S\<close> excludes: the white space of
  Python 3 among the code points below 256.
\<close>

definition py_isspace :: "char \<Rightarrow> bool" where
  "py_isspace c =
     (let n = (of_char c :: nat)
      in (9 \<le> n \<and> n \<le> 13) \<or> (28 \<le> n \<and> n \<le> 32) \<or> n = 133 \<or> n = 160)"

text \<open>
  \<open>_ET_NS_RE.match(tag)\<close> for the pattern \<open>^{(\S+)}(\S+)$\<close>.  \<open>$\<close> also matches
  before a final newline.  Both groups are greedy, so the first one ends at the last
  closing brace that leaves a character for the second.
\<close>

definition et_ns_match :: "string \<Rightarrow> (string \<times> string) option" where
  "et_ns_match s =
     (let body = (if s \<noteq> [] \<and> last s = CHR 0x0A then butlast s else s)
      in case body of
           [] \<Rightarrow> None
         | c # rest \<Rightarrow>
             if c = CHR ''{'' \<and> list_all (\<lambda>ch. \<not> py_isspace ch) rest
             then (case filter (\<lambda>i. rest ! i = CHR ''}'') [1 ..< length rest - 1] of
                     [] \<Rightarrow> None
                   | i # js \<Rightarrow> Some (take (last (i # js)) rest, drop (Suc (last (i # js))) rest))
             else None)"

definition tweak_ns :: "string \<Rightarrow> options \<Rightarrow> string" where
  "tweak_ns tg opts =
     (case nspaces opts of
        None \<Rightarrow> tg
      | Some ns \<Rightarrow>
          if ns \<noteq> [] then
            (case et_ns_match tg of
               None \<Rightarrow> tg
             | Some (uri, local) \<Rightarrow>
                 (case map_of ns uri of
                    None \<Rightarrow> local
                  | Some pfx \<Rightarrow> if pfx \<noteq> [] then pfx @ '':'' @ local else local))
          else tg)"

subsection \<open>Element to container\<close>

definition dicts_have_unique_keys :: "(string \<times> val) list list \<Rightarrow> bool" where
  "dicts_have_unique_keys dics =
     (card (set (concat (map (map fst) dics))) = sum_list (map length dics))"

definition merge_dicts :: "(string \<times> val) list list \<Rightarrow> (string \<times> val) list" where
  "merge_dicts dics = dict_of (concat dics)"

definition parse_text :: "val \<Rightarrow> options \<Rightarrow> val" where
  "parse_text v opts = (if truthy v \<and> ac_parse_value opts then parse_single opts v else v)"

text \<open>\<open>s.strip()\<close>; a value that is not a string has no such method.\<close>

definition strip :: "string \<Rightarrow> string" where
  "strip s = rev (dropWhile py_isspace (rev (dropWhile py_isspace s)))"

fun py_strip :: "val \<Rightarrow> exn + val" where
  "py_strip (VStr s) = Inr (VStr (strip s))"
| "py_strip _ = Inl AttributeError"

text \<open>
  \<open>elem_to_container\<close> starts with \<open>subdic = dic[_tweak_ns(elem.tag)] = to_container()\<close>:
  the entry of \<open>dic\<close> and the variable \<open>subdic\<close> are one object, and a later
  \<open>subdic[k] = v\<close> shows through \<open>dic\<close> until \<open>dic[elem.tag] = ...\<close> replaces that entry.
  An entry of \<open>dic\<close> is therefore either the object \<open>subdic\<close> or a value of its own, and
  \<open>resolve\<close> reads the dictionary out once \<open>subdic\<close> is final.  The state of a conversion
  is the element (whose text is assigned), \<open>dic\<close> and \<open>subdic\<close>.
\<close>

datatype entry = Subdic | Value val

definition resolve :: "(string \<times> val) list \<Rightarrow> (string \<times> entry) list \<Rightarrow> (string \<times> val) list" where
  "resolve subdic dic =
     map (\<lambda>(k, e). (k, case e of Subdic \<Rightarrow> VDict subdic | Value v \<Rightarrow> v)) dic"

type_synonym conv_state = "elem \<times> (string \<times> entry) list \<times> (string \<times> val) list"

definition process_elem_text :: "options \<Rightarrow> conv_state \<Rightarrow> exn + conv_state" where
  "process_elem_text opts st =
     (case st of (elem, dic, subdic) \<Rightarrow>
        (case py_strip (elem_text elem) of
           Inl e \<Rightarrow> Inl e
         | Inr t \<Rightarrow>
             (let elem' = Elem (tag elem) (attrib elem) t (children elem)
              in if truthy t then
                   (let etext = parse_text t opts
                    in if children elem \<noteq> [] \<or> attrib elem \<noteq> []
                       then Inr (elem', dic, dict_set (text_key opts) etext subdic)
                       else Inr (elem', dict_set (tag elem) (Value etext) dic, subdic))
                 else Inr (elem', dic, subdic))))"

definition parse_attrs :: "elem \<Rightarrow> options \<Rightarrow> val" where
  "parse_attrs elem opts =
     (if ac_parse_value opts
      then VDict (dict_of (map (\<lambda>(k, v). (k, parse_single opts v)) (attrib elem)))
      else VDict (attrib elem))"

definition process_elem_attrs :: "options \<Rightarrow> conv_state \<Rightarrow> conv_state" where
  "process_elem_attrs opts st =
     (case st of (elem, dic, subdic) \<Rightarrow>
        (let adic = parse_attrs elem opts
         in if \<not> truthy (elem_text elem) \<and> children elem = [] \<and> merge_attrs opts
            then (elem, dict_set (tag elem) (Value adic) dic, subdic)
            else (elem, dic, dict_set (attrs_key opts) adic subdic)))"

text \<open>
  \<open>_process_children_elems\<close>, with the list \<open>cdics\<close> of the children's conversions
  as an argument: \<open>elem_to_container\<close> below computes it by the recursive calls.
\<close>

definition process_children_elems ::
  "options \<Rightarrow> (string \<times> val) list list \<Rightarrow> conv_state \<Rightarrow> conv_state" where
  "process_children_elems opts cdics st =
     (case st of (elem, dic, subdic) \<Rightarrow>
        (let sdics = (if merge_attrs opts then attrib elem else subdic) # cdics
         in if dicts_have_unique_keys sdics
            then (elem, dict_set (tag elem) (Value (VDict (merge_dicts sdics))) dic, subdic)
            else if subdic = []
            then (elem, dict_set (tag elem) (Value (VList (map VDict cdics))) dic, subdic)
            else (elem, dic, dict_set (children_key opts) (VList (map VDict cdics)) subdic)))"

text \<open>The list comprehension over the children stops at the first exception.\<close>

fun sequence :: "(exn + 'a) list \<Rightarrow> exn + 'a list" where
  "sequence [] = Inr []"
| "sequence (Inl e # rs) = Inl e"
| "sequence (Inr x # rs) = (case sequence rs of Inl e \<Rightarrow> Inl e | Inr xs \<Rightarrow> Inr (x # xs))"

text \<open>
  \<open>elem_to_container\<close> for an element (\<open>root_to_container\<close> below treats \<open>None\<close>).  The
  result is the dictionary and the element as the call leaves it.  The recursive calls
  get the options without \<open>children\<close>: \<open>_process_children_elems\<close> binds that key to
  its own parameter and passes on the remaining ones.
\<close>

fun elem_to_container :: "options \<Rightarrow> elem \<Rightarrow> exn + ((string \<times> val) list \<times> elem)" where
  "elem_to_container opts (Elem tg atts txt cs) =
     (let st0 = (Elem tg atts txt cs, [(tweak_ns tg opts, Subdic)], [])
      in case (if truthy txt then process_elem_text opts st0 else Inr st0) of
           Inl e \<Rightarrow> Inl e
         | Inr st1 \<Rightarrow>
             (let st2 = (if atts \<noteq> [] then process_elem_attrs opts st1 else st1)
              in if cs \<noteq> [] then
                   (case sequence (map (elem_to_container (opts\<lparr>opt_children := None\<rparr>)) cs) of
                      Inl e \<Rightarrow> Inl e
                    | Inr rs \<Rightarrow>
                        (case st2 of (elem, dic, subdic) \<Rightarrow>
                           (case process_children_elems opts (map fst rs)
                                   (Elem (tag elem) (attrib elem) (elem_text elem) (map snd rs),
                                    dic, subdic) of
                              (elem', dic', subdic') \<Rightarrow> Inr (resolve subdic' dic', elem'))))
                 else
                   (case st2 of (elem, dic, subdic) \<Rightarrow>
                      if \<not> truthy (elem_text elem) \<and> attrib elem = []
                      then Inr (resolve subdic (dict_set (tag elem) (Value VNone) dic), elem)
                      else Inr (resolve subdic dic, elem))))"

definition TAGS :: "(string \<times> string) list" where
  "TAGS = [(''attrs'', ''@attrs''), (''text'', ''@text''), (''children'', ''@children'')]"

definition complement_tag_options :: "options \<Rightarrow> options" where
  "complement_tag_options opts =
     (if opt_attrs opts \<noteq> None \<and> opt_text opts \<noteq> None \<and> opt_children opts \<noteq> None
      then opts
      else
        (let tgs = (case tags opts of Some t \<Rightarrow> t | None \<Rightarrow> []);
             pick = (\<lambda>ntype. case map_of tgs ntype of Some t \<Rightarrow> Some t | None \<Rightarrow> map_of TAGS ntype)
         in opts\<lparr>opt_attrs := pick ''attrs'', opt_text := pick ''text'',
                 opt_children := pick ''children''\<rparr>))"

text \<open>
  \<open>root_to_container\<close>: the loop \<open>for uri, prefix in nspaces.items()\<close> writes the
  namespace declarations into the attributes of the root before the conversion
  (\<open>declare_nspaces\<close>); it runs over no entry when \<open>nspaces\<close> is \<open>None\<close> or empty.
\<close>

definition nspaces_items :: "options \<Rightarrow> (string \<times> string) list" where
  "nspaces_items opts = (case nspaces opts of Some ns \<Rightarrow> ns | None \<Rightarrow> [])"

definition declare_nspaces :: "(string \<times> string) list \<Rightarrow> elem \<Rightarrow> elem" where
  "declare_nspaces ns root =
     foldl (\<lambda>e (uri, pfx).
              Elem (tag e)
                (dict_set (if pfx \<noteq> [] then ''xmlns:'' @ pfx else ''xmlns'') (VStr uri) (attrib e))
                (elem_text e) (children e)) root ns"

definition root_to_container ::
  "elem option \<Rightarrow> options \<Rightarrow> exn + ((string \<times> val) list \<times> elem option)" where
  "root_to_container root opts =
     (case root of
        None \<Rightarrow> Inr ([], None)
      | Some r \<Rightarrow>
          (case elem_to_container (complement_tag_options opts)
                  (declare_nspaces (nspaces_items opts) r) of
             Inl e \<Rightarrow> Inl e
           | Inr (dic, r') \<Rightarrow> Inr (dic, Some r')))"

subsection \<open>Container to element\<close>

text \<open>
  Modelled from the spec: \<open>anyconfig.mdicts.is_dict_like\<close> and
  \<open>anyconfig.utils.is_iterable\<close> are not among the sources.  The first is the predicate
  "is this value mapping-like"; the second tells the sequences, whose members each become
  an element, from the scalars and mappings.
\<close>

fun is_dict_like :: "val \<Rightarrow> bool" where
  "is_dict_like (VDict d) = True"
| "is_dict_like _ = False"

fun is_iterable :: "val \<Rightarrow> bool" where
  "is_iterable (VList xs) = True"
| "is_iterable _ = False"

text \<open>The members of a list, for \<open>for val in vals\<close>.\<close>

fun list_items :: "val \<Rightarrow> val list" where
  "list_items (VList xs) = xs"
| "list_items _ = []"

text \<open>\<open>_str\<close>: \<open>str\<close> when \<open>ac_parse_value\<close> is set, the identity otherwise.\<close>

definition str_fn :: "options \<Rightarrow> val \<Rightarrow> val" where
  "str_fn opts v = (if ac_parse_value opts then VStr (py_str opts v) else v)"

text \<open>
  The assignments to the parent element.  \<open>parent\<close> may be \<open>None\<close>, and then each of
  them raises \<open>AttributeError\<close>.
\<close>

definition set_text :: "val \<Rightarrow> elem option \<Rightarrow> exn + elem option" where
  "set_text v parent =
     (case parent of
        None \<Rightarrow> Inl AttributeError
      | Some p \<Rightarrow> Inr (Some (Elem (tag p) (attrib p) v (children p))))"

definition set_attr :: "string \<Rightarrow> val \<Rightarrow> elem option \<Rightarrow> exn + elem option" where
  "set_attr attr v parent =
     (case parent of
        None \<Rightarrow> Inl AttributeError
      | Some p \<Rightarrow> Inr (Some (Elem (tag p) (dict_set attr v (attrib p)) (elem_text p) (children p))))"

definition append :: "elem \<Rightarrow> elem option \<Rightarrow> exn + elem option" where
  "append celem parent =
     (case parent of
        None \<Rightarrow> Inl AttributeError
      | Some p \<Rightarrow> Inr (Some (Elem (tag p) (attrib p) (elem_text p) (children p @ [celem]))))"

text \<open>The loop \<open>for attr, aval in iteritems(val): parent.set(attr, _str(aval))\<close>.\<close>

fun set_attrs :: "options \<Rightarrow> (string \<times> val) list \<Rightarrow> elem option \<Rightarrow> exn + elem option" where
  "set_attrs opts [] parent = Inr parent"
| "set_attrs opts ((attr, aval) # rest) parent =
     (case set_attr attr (str_fn opts aval) parent of
        Inl e \<Rightarrow> Inl e
      | Inr p \<Rightarrow> set_attrs opts rest p)"

text \<open>
  \<open>container_to_etree\<close> and its helpers.  The code assigns to the parent element in
  place; here each function returns the parent as it leaves it.  \<open>container_to_etree\<close>
  returns that parent together with its return value, which is \<open>None\<close> for an object
  that is not dict-like and \<open>ElementTree(parent)\<close> otherwise.
  \<^item> \<open>c2e_items\<close> is the loop over the items of \<open>obj\<close>;
  \<^item> \<open>elem_from_descendants\<close> is the loop \<open>for celem in _elem_from_descendants(val):
    parent.append(celem)\<close>, with the generator run in step with its consumer:
    \<open>efd_nodes\<close> is the generator's loop over the child nodes and \<open>efd_items\<close> its
    inner loop over the items of one node.  A string or a dictionary in the place of the
    list is iterated too (characters, keys), and its members have no \<open>items\<close>;
  \<^item> \<open>gup_vals\<close> is the loop over \<open>vals\<close> in \<open>_get_or_update_parent\<close>.
  A call \<open>container_to_etree(val, parent=elem)\<close> on a new element leaves that same
  object behind; where the model needs it, it is read from the returned parent.
\<close>

function (sequential)
  container_to_etree :: "options \<Rightarrow> val \<Rightarrow> elem option \<Rightarrow> exn + (elem option \<times> etree option)" and
  c2e_items :: "options \<Rightarrow> (string \<times> val) list \<Rightarrow> elem option \<Rightarrow> exn + elem option" and
  elem_from_descendants :: "options \<Rightarrow> val \<Rightarrow> elem option \<Rightarrow> exn + elem option" and
  efd_nodes :: "options \<Rightarrow> val list \<Rightarrow> elem option \<Rightarrow> exn + elem option" and
  efd_items :: "options \<Rightarrow> (string \<times> val) list \<Rightarrow> elem option \<Rightarrow> exn + elem option" and
  get_or_update_parent :: "options \<Rightarrow> string \<Rightarrow> val \<Rightarrow> elem option \<Rightarrow> exn + elem option" and
  gup_vals :: "options \<Rightarrow> val list \<Rightarrow> elem option \<Rightarrow> exn + elem option"
where
  "container_to_etree opts (VDict items) parent =
     (case c2e_items (complement_tag_options opts) items parent of
        Inl e \<Rightarrow> Inl e
      | Inr p \<Rightarrow> Inr (p, Some (ElementTree p)))"
| "container_to_etree opts obj parent =
     (let obj' = (if obj = VNone then VBool False else str_fn opts obj)
      in if parent \<noteq> None \<and> truthy obj'
         then (case set_text obj' parent of Inl e \<Rightarrow> Inl e | Inr p \<Rightarrow> Inr (p, None))
         else Inr (parent, None))"
| "c2e_items opts [] parent = Inr parent"
| "c2e_items opts ((key, v) # rest) parent =
     (case (if key = attrs_key opts then
              (case v of VDict avs \<Rightarrow> set_attrs opts avs parent | _ \<Rightarrow> Inl AttributeError)
            else if key = text_key opts then set_text (str_fn opts v) parent
            else if key = children_key opts then elem_from_descendants opts v parent
            else get_or_update_parent opts key v parent) of
        Inl e \<Rightarrow> Inl e
      | Inr p \<Rightarrow> c2e_items opts rest p)"
| "elem_from_descendants opts (VList children_nodes) parent = efd_nodes opts children_nodes parent"
| "elem_from_descendants opts (VDict d) parent = (if d = [] then Inr parent else Inl AttributeError)"
| "elem_from_descendants opts (VStr s) parent = (if s = [] then Inr parent else Inl AttributeError)"
| "elem_from_descendants opts v parent = Inl TypeError"
| "efd_nodes opts [] parent = Inr parent"
| "efd_nodes opts (VDict items # rest) parent =
     (case efd_items opts items parent of
        Inl e \<Rightarrow> Inl e
      | Inr p \<Rightarrow> efd_nodes opts rest p)"
| "efd_nodes opts (child # rest) parent = Inl AttributeError"
| "efd_items opts [] parent = Inr parent"
| "efd_items opts ((ckey, cval) # rest) parent =
     (case container_to_etree opts cval (Some (Elem ckey [] VNone [])) of
        Inl e \<Rightarrow> Inl e
      | Inr (c, r) \<Rightarrow>
          (case append (case c of Some celem \<Rightarrow> celem | None \<Rightarrow> Elem ckey [] VNone []) parent of
             Inl e \<Rightarrow> Inl e
           | Inr p \<Rightarrow> efd_items opts rest p))"
| "get_or_update_parent opts key v parent =
     (case gup_vals opts (if is_iterable v then list_items v else [v])
             (Some (Elem key [] VNone [])) of
        Inl e \<Rightarrow> Inl e
      | Inr c \<Rightarrow>
          (let elem = (case c of Some el \<Rightarrow> el | None \<Rightarrow> Elem key [] VNone [])
           in if parent = None then Inr (Some elem) else append elem parent))"
| "gup_vals opts [] elem = Inr elem"
| "gup_vals opts (v # vals) elem =
     (case container_to_etree opts v elem of
        Inl e \<Rightarrow> Inl e
      | Inr (p, r) \<Rightarrow> gup_vals opts vals p)"
  by pat_completeness auto

termination
  apply (relation "measure (\<lambda>x. case x of
      Inl (Inl (opts, obj, parent)) \<Rightarrow> 3 * size obj
    | Inl (Inr (Inl (opts, items, parent))) \<Rightarrow> 3 * size_list (size_prod (\<lambda>k. 0) size) items + 2
    | Inl (Inr (Inr (opts, v, parent))) \<Rightarrow> 3 * size v + 1
    | Inr (Inl (Inl (opts, nodes, parent))) \<Rightarrow> 3 * size_list size nodes
    | Inr (Inl (Inr (opts, items, parent))) \<Rightarrow> 3 * size_list (size_prod (\<lambda>k. 0) size) items + 1
    | Inr (Inr (Inl (opts, key, v, parent))) \<Rightarrow> 3 * size v + 5
    | Inr (Inr (Inr (opts, vals, elem))) \<Rightarrow> 3 * size_list size vals + 1)")
  apply simp_all
  subgoal for v by (cases v) simp_all
  done

section \<open>Notions used by the properties\<close>

text \<open>
  The options of a call that passes none: every keyword is missing.  \<open>parse_single\<close>
  and \<open>py_str\<close> are not called then.
\<close>

definition default_options :: options where
  "default_options =
     \<lparr>nspaces = None, tags = None, opt_attrs = None, opt_text = None, opt_children = None,
      merge_attrs = False, ac_parse_value = False,
      parse_single = (\<lambda>v. v), py_str = (\<lambda>v. [])\<rparr>"

text \<open>
  An element as the parser of the library builds it: the text of every element of the
  tree is \<open>None\<close> or a string.
\<close>

fun parsed :: "elem \<Rightarrow> bool" where
  "parsed (Elem tg atts txt cs) =
     ((case txt of VNone \<Rightarrow> True | VStr s \<Rightarrow> True | _ \<Rightarrow> False) \<and> list_all parsed cs)"

text \<open>The tree with the text of every element stripped.\<close>

fun strip_val :: "val \<Rightarrow> val" where
  "strip_val (VStr s) = VStr (strip s)"
| "strip_val v = v"

fun stripped :: "elem \<Rightarrow> elem" where
  "stripped (Elem tg atts txt cs) = Elem tg atts (strip_val txt) (map stripped cs)"

text \<open>The dictionary that \<open>elem_to_container\<close> returns (empty where it raises).\<close>

definition converted :: "options \<Rightarrow> elem \<Rightarrow> (string \<times> val) list" where
  "converted opts e = (case elem_to_container opts e of Inr (d, e') \<Rightarrow> d | Inl x \<Rightarrow> [])"

text \<open>The conversions of the children, as \<open>_process_children_elems\<close> computes them.\<close>

definition cdics_of :: "options \<Rightarrow> elem \<Rightarrow> (string \<times> val) list list" where
  "cdics_of opts e = map (converted (opts\<lparr>opt_children := None\<rparr>)) (children e)"

text \<open>
  The element has text: what \<open>if elem.text:\<close> finds once the text is stripped.
\<close>

definition has_text :: "elem \<Rightarrow> bool" where
  "has_text e = truthy (strip_val (elem_text e))"

text \<open>
  The sub-mapping of an element before its children are looked at: the text under the
  text marker, when the element also has children or attributes, and then the
  attributes under the attrs marker, unless they are absorbed (\<open>merge_attrs\<close>, no text,
  no children).
\<close>

definition marker_entries :: "options \<Rightarrow> elem \<Rightarrow> (string \<times> val) list" where
  "marker_entries opts e =
     (let s1 = (if has_text e \<and> (children e \<noteq> [] \<or> attrib e \<noteq> [])
                then [(text_key opts, parse_text (strip_val (elem_text e)) opts)] else [])
      in if attrib e \<noteq> [] \<and> (has_text e \<or> children e \<noteq> [] \<or> \<not> merge_attrs opts)
         then dict_set (attrs_key opts) (parse_attrs e opts) s1
         else s1)"

text \<open>The key sets of a list of dictionaries are pairwise disjoint.\<close>

fun pairwise_disjoint_keys :: "(string \<times> val) list list \<Rightarrow> bool" where
  "pairwise_disjoint_keys [] = True"
| "pairwise_disjoint_keys (d # ds) =
     (list_all (\<lambda>d'. set (map fst d) \<inter> set (map fst d') = {}) ds \<and> pairwise_disjoint_keys ds)"

text \<open>
  The calls of \<open>elem_to_container\<close> that the conversion of an element consists of: the
  call on the element with the caller's options, and for each child the calls of its
  own conversion, made with the options that \<open>_process_children_elems\<close> passes on.
\<close>

fun calls :: "options \<Rightarrow> elem \<Rightarrow> (options \<times> elem) list" where
  "calls opts (Elem tg atts tx cs) =
     (opts, Elem tg atts tx cs) # concat (map (calls (opts\<lparr>opt_children := None\<rparr>)) cs)"

text \<open>Namespace resolution leaves every tag of the tree as it is.\<close>

fun tags_kept :: "options \<Rightarrow> elem \<Rightarrow> bool" where
  "tags_kept opts (Elem tg atts tx cs) = (tweak_ns tg opts = tg \<and> list_all (tags_kept opts) cs)"

text \<open>The attribute names of every element of the tree are distinct, as in a dictionary.\<close>

fun attribs_distinct :: "elem \<Rightarrow> bool" where
  "attribs_distinct (Elem tg atts tx cs) = (distinct (map fst atts) \<and> list_all attribs_distinct cs)"

text \<open>
  The rule for an element with children, for the call \<open>elem_to_container opts e\<close> and
  a children marker.  Each child is converted into a mapping of one entry, keyed by its
  tag.  The dictionaries compared are the children's mappings together with the
  element's sub-mapping of marker entries, or, when \<open>merge_attrs\<close> is set, with the
  attributes-as-mapping in its place; the code's test is pairwise disjointness of their
  key sets.  If they are disjoint, the tag's value is the one flat mapping of all their
  entries; if some key repeats and the sub-mapping is empty, it is the sequence of the
  children's mappings; otherwise it is the sub-mapping with that sequence stored under the
  children marker.  The call returns that one entry and leaves the stripped tree.
\<close>

definition children_rule :: "options \<Rightarrow> elem \<Rightarrow> string \<Rightarrow> bool" where
  "children_rule opts e marker =
     (let cdics = cdics_of opts e;
          sub = marker_entries opts e;
          sdics = (if merge_attrs opts then attrib e else sub) # cdics
      in map (map fst) cdics = map (\<lambda>c. [tag c]) (children e)
       \<and> dicts_have_unique_keys sdics = pairwise_disjoint_keys sdics
       \<and> elem_to_container opts e
          = Inr ([(tag e,
                   if pairwise_disjoint_keys sdics then VDict (concat sdics)
                   else if sub = [] then VList (map VDict cdics)
                   else VDict (dict_set marker (VList (map VDict cdics)) sub))],
                 stripped e))"

text \<open>
  The rule for an element with attributes, for the call \<open>elem_to_container opts e\<close>.
  The result has one entry, under the tag.  If \<open>merge_attrs\<close> is set and the element
  has no text and no children, the value is the attributes-as-mapping.  If
  \<open>merge_attrs\<close> is set and the element has children whose mappings have keys disjoint
  from one another and from the attribute names, the value is the flat merge of the
  attributes and the children's mappings.  In every other case the value is a mapping
  that holds the attributes-as-mapping under the attrs marker.
\<close>

definition attrs_rule :: "options \<Rightarrow> elem \<Rightarrow> bool" where
  "attrs_rule opts e =
     (\<exists>v. elem_to_container opts e = Inr ([(tag e, v)], stripped e)
      \<and> (merge_attrs opts \<and> \<not> has_text e \<and> children e = [] \<longrightarrow> v = parse_attrs e opts)
      \<and> (merge_attrs opts \<and> children e \<noteq> []
           \<and> dicts_have_unique_keys (attrib e # cdics_of opts e)
          \<longrightarrow> v = VDict (merge_dicts (attrib e # cdics_of opts e)))
      \<and> (\<not> (merge_attrs opts \<and> \<not> has_text e \<and> children e = [])
           \<and> \<not> (merge_attrs opts \<and> children e \<noteq> []
                  \<and> dicts_have_unique_keys (attrib e # cdics_of opts e))
          \<longrightarrow> (\<exists>sub. v = VDict sub \<and> map_of sub (attrs_key opts) = Some (parse_attrs e opts))))"

text \<open>
  The two kinds of failure of a path lookup, and the kind that a getter's message
  tells: \<open>_get_recur\<close> by its wording, \<open>_get_reduce\<close> by the exception it caught.
\<close>

datatype failure_kind = AbsentKey | NonTraversable

fun failure_kind_of :: "message \<Rightarrow> failure_kind option" where
  "failure_kind_of (Text s) = (if prefix ''Not found at: '' s then Some AbsentKey else None)"
| "failure_kind_of (TextWithErr s e) =
     (if prefix ''Not a dict at: '' s then Some NonTraversable
      else (case e of KeyError k \<Rightarrow> Some AbsentKey | TypeError \<Rightarrow> Some NonTraversable
            | AttributeError \<Rightarrow> None))"

text \<open>
  Where the descent of \<open>reduce_getitem\<close> stops: the value that cannot be indexed by the
  next key, and that key.
\<close>

fun stops_at :: "val \<Rightarrow> string list \<Rightarrow> (val \<times> string) option" where
  "stops_at dic [] = None"
| "stops_at dic (key # path_keys) =
     (case py_getitem dic key of Inl e \<Rightarrow> Some (dic, key) | Inr v \<Rightarrow> stops_at v path_keys)"

text \<open>
  The values on which \<open>key in dic\<close> is false although \<open>dic\<close> is no dictionary: a string
  that does not contain the key, a list that has no such member.
\<close>

fun contains_not :: "val \<Rightarrow> string \<Rightarrow> bool" where
  "contains_not (VStr s) key = (\<not> is_substr key s)"
| "contains_not (VList xs) key = (VStr key \<notin> set xs)"
| "contains_not _ key = False"

definition stops_at_str_or_list :: "val \<Rightarrow> string list \<Rightarrow> bool" where
  "stops_at_str_or_list dic path_keys =
     (case stops_at dic path_keys of None \<Rightarrow> False | Some (w, k) \<Rightarrow> contains_not w k)"

section \<open>Properties of the path addressing\<close>

lemma map_of_in_keys: "map_of d k = Some v \<Longrightarrow> k \<in> fst ` set d"
  by (induction d) (auto split: if_splits)

lemma map_of_not_in_keys: "map_of d k = None \<Longrightarrow> k \<notin> fst ` set d"
  by (induction d) (auto split: if_splits)

subsection \<open>The two getters\<close>

text \<open>
  C6, as the code has it: for every value \<open>d\<close>, every list of keys and every list of
  traversed keys, \<open>_get_recur\<close> and \<open>_get_reduce\<close> return without raising, return the same
  result value, and succeed (empty message) on the same inputs.  They tell the same kind
  of failure exactly when the descent does not stop at a string or a list on which
  \<open>key in dic\<close> is false; where it does, \<open>_get_recur\<close> reports an absent key
  ("Not found at") and \<open>_get_reduce\<close> a value that cannot be traversed (the
  \<open>TypeError\<close>).
\<close>

theorem getters_agree:
  "\<exists>v m1 m2. get_recur d ks tr = Inr (v, m1) \<and> get_reduce d ks = Inr (v, m2)
     \<and> ((m1 = Text []) = (m2 = Text []))
     \<and> ((failure_kind_of m1 = failure_kind_of m2) = (\<not> stops_at_str_or_list d ks))
     \<and> (stops_at_str_or_list d ks \<longrightarrow>
          failure_kind_of m1 = Some AbsentKey \<and> failure_kind_of m2 = Some NonTraversable)"
proof (induction ks arbitrary: d tr)
  case Nil
  show ?case by (simp add: get_reduce_def stops_at_str_or_list_def)
next
  case (Cons k ks)
  show ?case
  proof (cases d)
    case (VDict m)
    show ?thesis
    proof (cases "map_of m k")
      case None
      then show ?thesis using VDict map_of_not_in_keys[OF None]
        by (simp add: get_reduce_def stops_at_str_or_list_def)
    next
      case (Some v)
      have "get_reduce d (k # ks) = get_reduce v ks"
        using VDict Some by (simp add: get_reduce_def)
      moreover have "get_recur d (k # ks) tr = get_recur v ks (tr @ [k])"
        using VDict Some map_of_in_keys[OF Some] Cons.IH[of v "tr @ [k]"] by auto
      moreover have "stops_at_str_or_list d (k # ks) = stops_at_str_or_list v ks"
        using VDict Some by (simp add: stops_at_str_or_list_def)
      ultimately show ?thesis using Cons.IH[of v "tr @ [k]"] by simp
    qed
  next
    case (VStr s)
    then show ?thesis
      by (cases "is_substr k s") (simp_all add: get_reduce_def stops_at_str_or_list_def)
  next
    case (VList xs)
    then show ?thesis
      by (cases "VStr k \<in> set xs") (simp_all add: get_reduce_def stops_at_str_or_list_def)
  qed (simp_all add: get_reduce_def stops_at_str_or_list_def)
qed

text \<open>
  C6 at the dictionary \<open>{'a': []}\<close> and the keys \<open>a\<close>, \<open>b\<close>: the descent stops at the
  list.
\<close>

theorem getters_agree_witness:
  "get_recur (VDict [(''a'', VList [])]) [''a'', ''b''] [] = Inr (VNone, Text ''Not found at: a.b'')
   \<and> get_reduce (VDict [(''a'', VList [])]) [''a'', ''b''] = Inr (VNone, TextWithErr [] TypeError)
   \<and> stops_at_str_or_list (VDict [(''a'', VList [])]) [''a'', ''b'']"
  using getters_agree [of "VDict [(''a'', VList [])]" "[''a'', ''b'']" "[]"]
  by (simp add: get_reduce_def stops_at_str_or_list_def str_path_def)

text \<open>
  C6 as stated fails at the string \<open>'a str'\<close> and the key \<open>z\<close>: the results agree, the
  two kinds of failure differ.
\<close>

theorem getters_classify_counterexample:
  "get_recur (VStr ''a str'') [''z''] [] = Inr (VNone, Text ''Not found at: z'')
   \<and> failure_kind_of (Text ''Not found at: z'') = Some AbsentKey
   \<and> get_reduce (VStr ''a str'') [''z''] = Inr (VNone, TextWithErr [] TypeError)
   \<and> failure_kind_of (TextWithErr [] TypeError) = Some NonTraversable"
  by (simp add: get_reduce_def str_path_def)

subsection \<open>Building a nested dictionary and reading it back\<close>

lemma nested_not_none:
  "r \<noteq> VNone \<Longrightarrow>
   foldl (\<lambda>ret key. VDict [(key, if ret = VNone then v else ret)]) r ks \<noteq> VNone"
  by (induction ks arbitrary: r) simp_all

lemma nested_cons:
  "foldl (\<lambda>ret key. VDict [(key, if ret = VNone then v else ret)]) VNone (rev (k # ks))
   = VDict [(k, if ks = [] then v
                else foldl (\<lambda>ret key. VDict [(key, if ret = VNone then v else ret)]) VNone (rev ks))]"
proof (cases "rev ks")
  case Nil
  then show ?thesis by simp
next
  case (Cons y ys)
  then have "ks \<noteq> []" by auto
  moreover have
    "foldl (\<lambda>ret key. VDict [(key, if ret = VNone then v else ret)]) VNone (rev ks) \<noteq> VNone"
    using Cons nested_not_none [of "VDict [(y, v)]" v ys] by simp
  ultimately show ?thesis by simp
qed

lemma reduce_nested:
  "ks \<noteq> [] \<Longrightarrow>
   reduce_getitem (foldl (\<lambda>ret key. VDict [(key, if ret = VNone then v else ret)]) VNone (rev ks)) ks
   = Inr v"
proof (induction ks)
  case Nil
  then show ?case by simp
next
  case (Cons k ks)
  show ?case
  proof (cases "ks = []")
    case True
    then show ?thesis by simp
  next
    case False
    then show ?thesis using Cons.IH nested_cons[of v k ks] by simp
  qed
qed

lemma recur_reduce_ok:
  "reduce_getitem d ks = Inr v \<Longrightarrow> get_recur d ks tr = Inr (v, Text [])"
proof (induction ks arbitrary: d tr)
  case Nil
  then show ?case by simp
next
  case (Cons k ks)
  from Cons.prems obtain m where d: "d = VDict m"
    by (cases d) simp_all
  from Cons.prems d obtain w where w: "map_of m k = Some w" "reduce_getitem w ks = Inr v"
    by (cases "map_of m k") simp_all
  have "k \<in> fst ` set m" using map_of_in_keys [OF w(1)] .
  then show ?case using d w Cons.IH [OF w(2), of "tr @ [k]"] by simp
qed

text \<open>
  C7, as the code has it: for every path expression that parses to at least one segment
  and every value \<open>v\<close>, reading the path from the nested dictionary built for it
  returns \<open>v\<close>, with either getter.
\<close>

theorem get_of_nested:
  "parse_path path seps \<noteq> [] \<Longrightarrow>
   get (mk_nested_dic path v seps) path seps get_reduce = Inr v
   \<and> get (mk_nested_dic path v seps) path seps (\<lambda>d ks. get_recur d ks []) = Inr v"
  using reduce_nested [of "parse_path path seps" v]
    recur_reduce_ok [of "mk_nested_dic path v seps" "parse_path path seps" v "[]"]
  by (simp add: get_def mk_nested_dic_def get_reduce_def)

text \<open>C7 at the path \<open>a.b.c\<close> and the value 1.\<close>

theorem get_of_nested_witness:
  "parse_path ''a.b.c'' PATH_SEPS \<noteq> []
   \<and> mk_nested_dic ''a.b.c'' (VInt 1) PATH_SEPS
       = VDict [(''a'', VDict [(''b'', VDict [(''c'', VInt 1)])])]
   \<and> get (mk_nested_dic ''a.b.c'' (VInt 1) PATH_SEPS) ''a.b.c'' PATH_SEPS get_reduce = Inr (VInt 1)"
proof -
  have p: "parse_path ''a.b.c'' PATH_SEPS = [''a'', ''b'', ''c'']"
    by (simp add: parse_path_def PATH_SEPS_def)
  then have h: "parse_path ''a.b.c'' PATH_SEPS \<noteq> []" by simp
  show ?thesis using h get_of_nested [OF h, of "VInt 1"] p by (simp add: mk_nested_dic_def)
qed

text \<open>
  C7 as stated fails at the root path \<open>/\<close>, which has no segment: nothing is built
  (\<open>None\<close>), and reading the root of \<open>None\<close> gives \<open>None\<close>, not the value 1.
\<close>

theorem get_of_nested_root_counterexample:
  "parse_path ''/'' PATH_SEPS = []
   \<and> get (mk_nested_dic ''/'' (VInt 1) PATH_SEPS) ''/'' PATH_SEPS get_reduce = Inr VNone
   \<and> VNone \<noteq> VInt 1"
  by (simp add: parse_path_def PATH_SEPS_def get_def mk_nested_dic_def get_reduce_def)

subsection \<open>What \<open>get\<close> reports\<close>

text \<open>
  C8, as the code has it: for every value and every path expression, \<open>get\<close> (with its
  default getter) does not raise; it returns the value that the path leads to, and
  \<open>None\<close> whenever the descent fails, whatever the exception was.
\<close>

theorem get_reports_none:
  "get d path seps get_reduce
   = Inr (case reduce_getitem d (parse_path path seps) of Inr v \<Rightarrow> v | Inl e \<Rightarrow> VNone)"
proof -
  have "\<And>ks d. reduce_getitem d ks \<noteq> Inl AttributeError"
  proof -
    fix ks d show "reduce_getitem d ks \<noteq> Inl AttributeError"
      by (induction ks arbitrary: d) (auto split: sum.splits option.splits elim: py_getitem.elims)
  qed
  then show ?thesis
    by (auto simp: get_def get_reduce_def split: sum.splits exn.splits)
qed

text \<open>
  C8 as stated fails on the dictionary \<open>{'a': 1}\<close>: the path \<open>b\<close> meets an absent key
  and the path \<open>a.b\<close> a value that cannot be traversed, and \<open>get\<close> returns the same
  \<open>None\<close> for both.
\<close>

theorem get_same_absence_counterexample:
  "reduce_getitem (VDict [(''a'', VInt 1)]) (parse_path ''b'' PATH_SEPS) = Inl (KeyError ''b'')
   \<and> reduce_getitem (VDict [(''a'', VInt 1)]) (parse_path ''a.b'' PATH_SEPS) = Inl TypeError
   \<and> get (VDict [(''a'', VInt 1)]) ''b'' PATH_SEPS get_reduce = Inr VNone
   \<and> get (VDict [(''a'', VInt 1)]) ''a.b'' PATH_SEPS get_reduce = Inr VNone"
  by (simp add: parse_path_def PATH_SEPS_def get_def get_reduce_def)

section \<open>Properties of the XML backend\<close>

subsection \<open>Assignments to a dictionary\<close>

lemma dict_set_keys: "set (map fst (dict_set k v xs)) = insert k (set (map fst xs))"
  by (induction xs) auto

lemma dict_set_distinct: "distinct (map fst xs) \<Longrightarrow> distinct (map fst (dict_set k v xs))"
  by (induction xs) (auto simp: dict_set_keys simp del: set_map)

lemma map_of_dict_set_upd: "map_of (dict_set k v xs) = (map_of xs)(k \<mapsto> v)"
  by (induction xs) (auto simp: fun_eq_iff)

subsection \<open>Namespace resolution\<close>

lemma filter_upt_last:
  assumes "P m" "a \<le> m" "m < n" "\<And>i. m < i \<Longrightarrow> i < n \<Longrightarrow> \<not> P i"
  shows "\<exists>js. filter P [a ..< n] = js @ [m]"
proof -
  have "[a ..< n] = [a ..< m] @ [m ..< n]"
    using assms(2,3) upt_add_eq_append [of a m "n - m"] by simp
  then have "[a ..< n] = [a ..< m] @ m # [Suc m ..< n]"
    using assms(3) by (simp add: upt_conv_Cons)
  moreover have "filter P [Suc m ..< n] = []"
    using assms(4) by (auto simp: filter_empty_conv)
  ultimately show ?thesis using assms(1) by simp
qed

lemma et_ns_match_form:
  assumes "uri \<noteq> []" "local \<noteq> []"
    and "list_all (\<lambda>ch. \<not> py_isspace ch) (uri @ local)"
    and "CHR ''}'' \<notin> set local"
  shows "et_ns_match (CHR ''{'' # uri @ CHR ''}'' # local) = Some (uri, local)"
proof -
  let ?rest = "uri @ CHR ''}'' # local"
  let ?s = "CHR ''{'' # ?rest"
  have nl: "py_isspace (CHR 0x0A)" by (simp add: py_isspace_def)
  have "\<not> py_isspace (last local)" using assms(2,3) by (simp add: list_all_iff)
  then have "last local \<noteq> CHR 0x0A" using nl by auto
  then have last: "last ?s \<noteq> CHR 0x0A" using assms(2) by simp
  have br: "\<not> py_isspace (CHR ''}'')" by (simp add: py_isspace_def)
  have ns: "list_all (\<lambda>ch. \<not> py_isspace ch) ?rest" using assms(3) br by simp
  have P: "?rest ! length uri = CHR ''}''" by (simp add: nth_append)
  have lo: "1 \<le> length uri" using assms(1) by (cases uri) simp_all
  have hi: "length uri < length ?rest - 1" using assms(2) by (cases local) simp_all
  have after: "\<And>i. length uri < i \<Longrightarrow> i < length ?rest - 1 \<Longrightarrow> ?rest ! i \<noteq> CHR ''}''"
  proof -
    fix i assume i: "length uri < i" "i < length ?rest - 1"
    then have "?rest ! i = local ! (i - length uri - 1)"
      by (simp add: nth_append nth_Cons')
    moreover have "i - length uri - 1 < length local" using i by simp
    ultimately show "?rest ! i \<noteq> CHR ''}''" using assms(4) by (metis nth_mem)
  qed
  obtain js where js: "filter (\<lambda>i. ?rest ! i = CHR ''}'') [1 ..< length ?rest - 1] = js @ [length uri]"
    using filter_upt_last [of "\<lambda>i. ?rest ! i = CHR ''}''" "length uri" 1 "length ?rest - 1"]
      P lo hi after by blast
  have "et_ns_match ?s =
     (case filter (\<lambda>i. ?rest ! i = CHR ''}'') [1 ..< length ?rest - 1] of
                     [] \<Rightarrow> None
                   | i # js \<Rightarrow> Some (take (last (i # js)) ?rest, drop (Suc (last (i # js))) ?rest))"
    unfolding et_ns_match_def using last ns by (simp del: upt_Suc)
  also have "\<dots> = Some (take (length uri) ?rest, drop (Suc (length uri)) ?rest)"
    unfolding js by (cases js) simp_all
  also have "\<dots> = Some (uri, local)" by simp
  finally show ?thesis .
qed

lemma et_ns_match_space:
  assumes "list_ex py_isspace uri"
  shows "et_ns_match (CHR ''{'' # uri @ CHR ''}'' # local) = None"
proof -
  let ?s = "CHR ''{'' # uri @ CHR ''}'' # local"
  let ?body = "if ?s \<noteq> [] \<and> last ?s = CHR 0x0A then butlast ?s else ?s"
  obtain rest where body: "?body = CHR ''{'' # uri @ rest"
    by (cases "last ?s = CHR 0x0A") (simp_all add: butlast_append)
  have na: "\<not> list_all (\<lambda>ch. \<not> py_isspace ch) uri"
    using assms by (auto simp: list_all_iff list_ex_iff)
  show ?thesis
    unfolding et_ns_match_def Let_def body by (simp add: na)
qed

text \<open>
  C9, as the code has it.  For every tag \<open>{uri}local\<close> with \<open>uri\<close> and \<open>local\<close> not
  empty and free of white space and no closing brace in \<open>local\<close> (so that the pattern
  \<open>^{(\S+)}(\S+)$\<close> splits it into \<open>uri\<close> and \<open>local\<close>), whose URI has no non-empty
  prefix in the namespace map (the URI is absent, or maps to the empty string),
  \<open>_tweak_ns\<close> adds no prefix: it returns the tag unchanged when the map is \<open>None\<close> or
  empty, and the local part alone, with the braced URI removed, when the map has any
  entry.  A tag that the pattern does not match is returned unchanged whatever the map
  holds; a tag \<open>{uri}local\<close> with white space in \<open>uri\<close> is such a tag.
\<close>

theorem tweak_ns_unmapped:
  "(uri \<noteq> [] \<and> local \<noteq> [] \<and> list_all (\<lambda>ch. \<not> py_isspace ch) (uri @ local)
      \<and> CHR ''}'' \<notin> set local
      \<and> (map_of (nspaces_items opts) uri = None \<or> map_of (nspaces_items opts) uri = Some [])
    \<longrightarrow> tweak_ns (CHR ''{'' # uri @ CHR ''}'' # local) opts
         = (if nspaces_items opts = [] then CHR ''{'' # uri @ CHR ''}'' # local else local))
   \<and> (et_ns_match tg = None \<longrightarrow> tweak_ns tg opts = tg)
   \<and> (list_ex py_isspace uri \<longrightarrow>
        tweak_ns (CHR ''{'' # uri @ CHR ''}'' # local) opts = CHR ''{'' # uri @ CHR ''}'' # local)"
proof -
  have a: "uri \<noteq> [] \<and> local \<noteq> [] \<and> list_all (\<lambda>ch. \<not> py_isspace ch) (uri @ local)
      \<and> CHR ''}'' \<notin> set local
      \<and> (map_of (nspaces_items opts) uri = None \<or> map_of (nspaces_items opts) uri = Some [])
    \<longrightarrow> tweak_ns (CHR ''{'' # uri @ CHR ''}'' # local) opts
         = (if nspaces_items opts = [] then CHR ''{'' # uri @ CHR ''}'' # local else local)"
  proof
    assume h: "uri \<noteq> [] \<and> local \<noteq> [] \<and> list_all (\<lambda>ch. \<not> py_isspace ch) (uri @ local)
      \<and> CHR ''}'' \<notin> set local
      \<and> (map_of (nspaces_items opts) uri = None \<or> map_of (nspaces_items opts) uri = Some [])"
    then have "et_ns_match (CHR ''{'' # uri @ CHR ''}'' # local) = Some (uri, local)"
      using et_ns_match_form [of uri local] by blast
    then show "tweak_ns (CHR ''{'' # uri @ CHR ''}'' # local) opts
         = (if nspaces_items opts = [] then CHR ''{'' # uri @ CHR ''}'' # local else local)"
      using h by (auto simp: tweak_ns_def nspaces_items_def split: option.splits)
  qed
  have b: "\<And>t. et_ns_match t = None \<Longrightarrow> tweak_ns t opts = t"
    by (simp add: tweak_ns_def split: option.splits)
  have c: "list_ex py_isspace uri \<longrightarrow>
        tweak_ns (CHR ''{'' # uri @ CHR ''}'' # local) opts = CHR ''{'' # uri @ CHR ''}'' # local"
    using b et_ns_match_space [of uri local] by blast
  show ?thesis using a b [of tg] c by blast
qed

text \<open>
  C9 at the tag \<open>{u}a\<close>, with a map that declares another URI only and with no map; at
  the tag \<open>a\<close>, which the pattern does not match; and at the tag \<open>{u v}a\<close> with the
  map \<open>{'u v': ''}\<close>.
\<close>

theorem tweak_ns_unmapped_witness:
  "map_of (nspaces_items (default_options\<lparr>nspaces := Some [(''v'', ''p'')]\<rparr>)) ''u'' = None
   \<and> tweak_ns ''{u}a'' (default_options\<lparr>nspaces := Some [(''v'', ''p'')]\<rparr>) = ''a''
   \<and> tweak_ns ''{u}a'' default_options = ''{u}a''
   \<and> et_ns_match ''a'' = None
   \<and> tweak_ns ''a'' (default_options\<lparr>nspaces := Some [(''v'', ''p'')]\<rparr>) = ''a''
   \<and> list_ex py_isspace ''u v''
   \<and> tweak_ns ''{u v}a'' (default_options\<lparr>nspaces := Some [(''u v'', [])]\<rparr>) = ''{u v}a''"
proof -
  have e: "et_ns_match ''a'' = None" by code_simp
  have s: "list_ex py_isspace ''u v''" by code_simp
  show ?thesis
    using e s
      tweak_ns_unmapped [of "''u''" "''a''" "default_options\<lparr>nspaces := Some [(''v'', ''p'')]\<rparr>" "''a''"]
      tweak_ns_unmapped [of "''u''" "''a''" "default_options" "''a''"]
      tweak_ns_unmapped [of "''u v''" "''a''" "default_options\<lparr>nspaces := Some [(''u v'', [])]\<rparr>" "''a''"]
    by (simp add: nspaces_items_def default_options_def py_isspace_def)
qed

text \<open>
  C9 as stated fails at the tag \<open>{u}a\<close> and the map \<open>{'u': ''}\<close>: the result is
  \<open>a\<close>, not the tag.
\<close>

theorem tweak_ns_strips_counterexample:
  "map_of [(''u'', [])] ''u'' = Some []
   \<and> tweak_ns ''{u}a'' (default_options\<lparr>nspaces := Some [(''u'', [])]\<rparr>) = ''a''
   \<and> ''a'' \<noteq> ''{u}a''"
  by (simp add: tweak_ns_def et_ns_match_def py_isspace_def default_options_def)

subsection \<open>What the conversion does to the element tree\<close>

lemma sequence_map_Inr:
  "(\<And>c. c \<in> set cs \<Longrightarrow> f c = Inr (g c)) \<Longrightarrow> sequence (map f cs) = Inr (map g cs)"
  by (induction cs) simp_all

lemma py_strip_parsed:
  "(case tx of VNone \<Rightarrow> True | VStr s \<Rightarrow> True | _ \<Rightarrow> False) \<Longrightarrow> truthy tx \<Longrightarrow>
   py_strip tx = Inr (strip_val tx)"
  by (cases tx) simp_all

lemma strip_val_falsy:
  "(case tx of VNone \<Rightarrow> True | VStr s \<Rightarrow> True | _ \<Rightarrow> False) \<Longrightarrow> \<not> truthy tx \<Longrightarrow>
   strip_val tx = tx"
  by (cases tx) (simp_all add: strip_def)

lemma elem_to_container_parsed:
  "parsed e \<Longrightarrow> \<exists>d. elem_to_container opts e = Inr (d, stripped e)"
proof (induction e arbitrary: opts)
  case (Elem tg atts tx cs)
  have tx: "(case tx of VNone \<Rightarrow> True | VStr s \<Rightarrow> True | _ \<Rightarrow> False)"
    using Elem.prems by simp
  have "\<And>c. c \<in> set cs \<Longrightarrow> \<exists>d. elem_to_container (opts\<lparr>opt_children := None\<rparr>) c = Inr (d, stripped c)"
    using Elem.IH Elem.prems by (simp add: list_all_iff)
  then have ch: "\<And>c. c \<in> set cs \<Longrightarrow>
      elem_to_container (opts\<lparr>opt_children := None\<rparr>) c
      = Inr (converted (opts\<lparr>opt_children := None\<rparr>) c, stripped c)"
    by (fastforce simp: converted_def)
  have seq: "sequence (map (elem_to_container (opts\<lparr>opt_children := None\<rparr>)) cs)
      = Inr (map (\<lambda>c. (converted (opts\<lparr>opt_children := None\<rparr>) c, stripped c)) cs)"
    using sequence_map_Inr [of cs "elem_to_container (opts\<lparr>opt_children := None\<rparr>)"
        "\<lambda>c. (converted (opts\<lparr>opt_children := None\<rparr>) c, stripped c)"] ch by blast
  show ?case
  proof (cases "truthy tx")
    case True
    then show ?thesis
      using seq py_strip_parsed [OF tx True]
      by (auto simp: process_elem_text_def process_elem_attrs_def process_children_elems_def
          Let_def comp_def split: prod.splits)
  next
    case False
    then show ?thesis
      using seq strip_val_falsy [OF tx False]
      by (auto simp: process_elem_attrs_def process_children_elems_def
          Let_def comp_def split: prod.splits)
  qed
qed


lemma declare_nspaces_fields:
  "tag (declare_nspaces ns e) = tag e \<and> elem_text (declare_nspaces ns e) = elem_text e
   \<and> children (declare_nspaces ns e) = children e"
  unfolding declare_nspaces_def
  by (induction ns arbitrary: e) (simp_all split: prod.splits)

lemma parsed_fields:
  "parsed e = ((case elem_text e of VNone \<Rightarrow> True | VStr s \<Rightarrow> True | _ \<Rightarrow> False)
               \<and> list_all parsed (children e))"
  by (cases e) simp

lemma parsed_declare_nspaces: "parsed e \<Longrightarrow> parsed (declare_nspaces ns e)"
  using parsed_fields [of e] parsed_fields [of "declare_nspaces ns e"]
    declare_nspaces_fields [of ns e] by simp

lemma declare_nspaces_Cons:
  "declare_nspaces ((uri, pfx) # ns) e
   = declare_nspaces ns
       (Elem (tag e)
          (dict_set (if pfx \<noteq> [] then ''xmlns:'' @ pfx else ''xmlns'') (VStr uri) (attrib e))
          (elem_text e) (children e))"
  by (simp add: declare_nspaces_def)

lemma declare_nspaces_attrib:
  "map_of (attrib (declare_nspaces ns e))
   = map_of (attrib e)
     ++ map_of (rev (map (\<lambda>(uri, pfx). (if pfx \<noteq> [] then ''xmlns:'' @ pfx else ''xmlns'', VStr uri)) ns))"
proof (induction ns arbitrary: e)
  case Nil
  then show ?case by (simp add: declare_nspaces_def)
next
  case (Cons x ns)
  obtain uri pfx where x: "x = (uri, pfx)" by (cases x)
  show ?case
    unfolding x declare_nspaces_Cons Cons.IH
    by (simp add: map_of_dict_set_upd map_add_upd_left fun_eq_iff map_add_def split: option.splits)
qed

lemma declare_nspaces_distinct:
  "distinct (map fst (attrib e)) \<Longrightarrow> distinct (map fst (attrib (declare_nspaces ns e)))"
proof (induction ns arbitrary: e)
  case Nil
  then show ?case by (simp add: declare_nspaces_def)
next
  case (Cons x ns)
  obtain uri pfx where x: "x = (uri, pfx)" by (cases x)
  show ?case
    unfolding x declare_nspaces_Cons
    using Cons.prems by (intro Cons.IH) (simp add: dict_set_distinct)
qed

lemma stripped_fields:
  "tag (stripped e) = tag e \<and> attrib (stripped e) = attrib e
   \<and> elem_text (stripped e) = strip_val (elem_text e)
   \<and> children (stripped e) = map stripped (children e)"
  by (cases e) simp

text \<open>
  C10, as the code has it, on a tree as the parser builds it.  \<open>elem_to_container\<close>
  does not raise and leaves the tag, the attributes and the children of every element
  as they are, and it assigns to every element its text stripped of surrounding white
  space.  \<open>root_to_container\<close> does the same to the tree, and before that it assigns,
  for each entry \<open>(uri, prefix)\<close> of the namespace map in turn, the URI to the
  attribute \<open>xmlns:prefix\<close> of the root (\<open>xmlns\<close> for an empty prefix): afterwards
  the attributes of the root are the old ones overridden by these assignments, the
  later of two entries with one prefix winning, and their names are distinct if they
  were.
\<close>

theorem conversion_strips_text:
  assumes "parsed e"
  shows "(\<exists>d. elem_to_container opts e = Inr (d, stripped e))
       \<and> (\<exists>d r. root_to_container (Some e) opts = Inr (d, Some r)
             \<and> tag r = tag e
             \<and> elem_text r = strip_val (elem_text e)
             \<and> children r = map stripped (children e)
             \<and> map_of (attrib r)
                = map_of (attrib e)
                  ++ map_of (rev (map (\<lambda>(uri, pfx).
                                         (if pfx \<noteq> [] then ''xmlns:'' @ pfx else ''xmlns'', VStr uri))
                                   (nspaces_items opts)))
             \<and> (distinct (map fst (attrib e)) \<longrightarrow> distinct (map fst (attrib r))))"
proof -
  let ?r = "declare_nspaces (nspaces_items opts) e"
  obtain d where "elem_to_container (complement_tag_options opts) ?r = Inr (d, stripped ?r)"
    using elem_to_container_parsed [OF parsed_declare_nspaces [OF assms]] by blast
  then have r: "root_to_container (Some e) opts = Inr (d, Some (stripped ?r))"
    by (simp add: root_to_container_def)
  have "tag (stripped ?r) = tag e"
    "elem_text (stripped ?r) = strip_val (elem_text e)"
    "children (stripped ?r) = map stripped (children e)"
    "map_of (attrib (stripped ?r))
                = map_of (attrib e)
                  ++ map_of (rev (map (\<lambda>(uri, pfx).
                                         (if pfx \<noteq> [] then ''xmlns:'' @ pfx else ''xmlns'', VStr uri))
                                   (nspaces_items opts)))"
    "distinct (map fst (attrib e)) \<longrightarrow> distinct (map fst (attrib (stripped ?r)))"
    using stripped_fields [of ?r] declare_nspaces_fields [of "nspaces_items opts" e]
      declare_nspaces_attrib [of "nspaces_items opts" e]
      declare_nspaces_distinct [of e "nspaces_items opts"]
    by simp_all
  then show ?thesis using r elem_to_container_parsed [OF assms] by blast
qed

text \<open>
  C10 at \<open><a x="1"> t <b>  </b></a>\<close> with the namespace map
  \<open>{'u': 'p', 'v': 'p'}\<close>, taken in this order.
\<close>

theorem conversion_strips_text_witness:
  "parsed (Elem ''a'' [(''x'', VStr ''1'')] (VStr '' t '') [Elem ''b'' [] (VStr ''  '') []])
   \<and> (\<exists>d r. root_to_container
             (Some (Elem ''a'' [(''x'', VStr ''1'')] (VStr '' t '') [Elem ''b'' [] (VStr ''  '') []]))
             (default_options\<lparr>nspaces := Some [(''u'', ''p''), (''v'', ''p'')]\<rparr>)
           = Inr (d, Some r)
           \<and> tag r = ''a'' \<and> elem_text r = VStr ''t''
           \<and> children r = [Elem ''b'' [] (VStr []) []]
           \<and> map_of (attrib r) ''x'' = Some (VStr ''1'')
           \<and> map_of (attrib r) ''xmlns:p'' = Some (VStr ''v'')
           \<and> map_of (attrib r) ''xmlns'' = None
           \<and> distinct (map fst (attrib r)))"
proof -
  have h: "parsed (Elem ''a'' [(''x'', VStr ''1'')] (VStr '' t '') [Elem ''b'' [] (VStr ''  '') []])"
    by simp
  show ?thesis
    using h conversion_strips_text [OF h, of "default_options\<lparr>nspaces := Some [(''u'', ''p''), (''v'', ''p'')]\<rparr>"]
    by (auto simp: nspaces_items_def default_options_def strip_def py_isspace_def)
qed

text \<open>
  C10 as stated fails at \<open><a> x </a>\<close>: after the call the text of the element is
  \<open>x\<close>.
\<close>

theorem conversion_mutates_counterexample:
  "elem_to_container default_options (Elem ''a'' [] (VStr '' x '') [])
     = Inr ([(''a'', VStr ''x'')], Elem ''a'' [] (VStr ''x'') [])
   \<and> Elem ''a'' [] (VStr ''x'') [] \<noteq> Elem ''a'' [] (VStr '' x '') []"
  by (simp add: default_options_def process_elem_text_def tweak_ns_def strip_def py_isspace_def
      parse_text_def resolve_def)

subsection \<open>The key of the result\<close>

text \<open>
  C2 says that \<open>elem_to_container\<close> returns one entry, under the rewritten tag.  The
  code at the element \<open><p:a xmlns:p="u">x</p:a>\<close>, whose tag the parser gives as
  \<open>{u}a\<close>, with the namespace map \<open>{'u': 'p'}\<close>: the result has two entries, an
  empty dictionary under the rewritten tag \<open>p:a\<close> and the text under the tag as it
  was.  The same happens to that element as a child, below a root.
\<close>

theorem rewritten_tag_two_entries:
  "elem_to_container (default_options\<lparr>nspaces := Some [(''u'', ''p'')]\<rparr>)
       (Elem ''{u}a'' [] (VStr ''x'') [])
     = Inr ([(''p:a'', VDict []), (''{u}a'', VStr ''x'')], Elem ''{u}a'' [] (VStr ''x'') [])
   \<and> tweak_ns ''{u}a'' (default_options\<lparr>nspaces := Some [(''u'', ''p'')]\<rparr>) = ''p:a''
   \<and> root_to_container (Some (Elem ''r'' [] VNone [Elem ''{u}a'' [] (VStr ''x'') []]))
         (default_options\<lparr>nspaces := Some [(''u'', ''p'')]\<rparr>)
     = Inr ([(''r'', VDict [(''@attrs'', VDict [(''xmlns:p'', VStr ''u'')]),
                            (''p:a'', VDict []), (''{u}a'', VStr ''x'')])],
            Some (Elem ''r'' [(''xmlns:p'', VStr ''u'')] VNone [Elem ''{u}a'' [] (VStr ''x'') []]))"
  by code_simp

subsection \<open>A second round trip\<close>

text \<open>
  C4 says that converting the dumped tree again gives the first container.  The code at
  \<open><r xmlns:p="u"><p:a>x</p:a></r>\<close>, a document whose only child tag is unique, with
  the namespace map \<open>{'u': 'p'}\<close> that the loader reads from it.  The first conversion
  gives the child two entries, an empty dictionary under \<open>p:a\<close> and the text under
  \<open>{u}a\<close>, and merges both into the value of \<open>r\<close>.  The dump makes two elements
  of them, an empty \<open>p:a\<close> and \<open>{u}a\<close> with the text.  The second conversion, with
  the same options, finds the key \<open>p:a\<close> twice among the children and stores them
  as a sequence under \<open>@children\<close>; without a namespace map it gives \<open>None\<close> under
  \<open>p:a\<close> where the first container has an empty dictionary.  Neither is the first
  container.
\<close>

theorem second_round_trip_differs:
  "root_to_container (Some (Elem ''r'' [] VNone [Elem ''{u}a'' [] (VStr ''x'') []]))
       (default_options\<lparr>nspaces := Some [(''u'', ''p'')]\<rparr>)
     = Inr ([(''r'', VDict [(''@attrs'', VDict [(''xmlns:p'', VStr ''u'')]),
                            (''p:a'', VDict []), (''{u}a'', VStr ''x'')])],
            Some (Elem ''r'' [(''xmlns:p'', VStr ''u'')] VNone [Elem ''{u}a'' [] (VStr ''x'') []]))
   \<and> container_to_etree (default_options\<lparr>nspaces := Some [(''u'', ''p'')]\<rparr>)
         (VDict [(''r'', VDict [(''@attrs'', VDict [(''xmlns:p'', VStr ''u'')]),
                               (''p:a'', VDict []), (''{u}a'', VStr ''x'')])]) None
     = Inr (Some (Elem ''r'' [(''xmlns:p'', VStr ''u'')] VNone
                    [Elem ''p:a'' [] VNone [], Elem ''{u}a'' [] (VStr ''x'') []]),
            Some (ElementTree (Some (Elem ''r'' [(''xmlns:p'', VStr ''u'')] VNone
                    [Elem ''p:a'' [] VNone [], Elem ''{u}a'' [] (VStr ''x'') []]))))
   \<and> root_to_container
         (Some (Elem ''r'' [(''xmlns:p'', VStr ''u'')] VNone
                    [Elem ''p:a'' [] VNone [], Elem ''{u}a'' [] (VStr ''x'') []]))
         (default_options\<lparr>nspaces := Some [(''u'', ''p'')]\<rparr>)
     = Inr ([(''r'', VDict [(''@attrs'', VDict [(''xmlns:p'', VStr ''u'')]),
                            (''@children'',
                             VList [VDict [(''p:a'', VNone)],
                                    VDict [(''p:a'', VDict []), (''{u}a'', VStr ''x'')]])])],
            Some (Elem ''r'' [(''xmlns:p'', VStr ''u'')] VNone
                    [Elem ''p:a'' [] VNone [], Elem ''{u}a'' [] (VStr ''x'') []]))
   \<and> root_to_container
         (Some (Elem ''r'' [(''xmlns:p'', VStr ''u'')] VNone
                    [Elem ''p:a'' [] VNone [], Elem ''{u}a'' [] (VStr ''x'') []]))
         default_options
     = Inr ([(''r'', VDict [(''@attrs'', VDict [(''xmlns:p'', VStr ''u'')]),
                            (''p:a'', VNone), (''{u}a'', VStr ''x'')])],
            Some (Elem ''r'' [(''xmlns:p'', VStr ''u'')] VNone
                    [Elem ''p:a'' [] VNone [], Elem ''{u}a'' [] (VStr ''x'') []]))
   \<and> [(''r'', VDict [(''@attrs'', VDict [(''xmlns:p'', VStr ''u'')]),
                      (''@children'',
                       VList [VDict [(''p:a'', VNone)],
                              VDict [(''p:a'', VDict []), (''{u}a'', VStr ''x'')]])])]
       \<noteq> [(''r'', VDict [(''@attrs'', VDict [(''xmlns:p'', VStr ''u'')]),
                          (''p:a'', VDict []), (''{u}a'', VStr ''x'')])]
   \<and> [(''r'', VDict [(''@attrs'', VDict [(''xmlns:p'', VStr ''u'')]),
                      (''p:a'', VNone), (''{u}a'', VStr ''x'')])]
       \<noteq> [(''r'', VDict [(''@attrs'', VDict [(''xmlns:p'', VStr ''u'')]),
                          (''p:a'', VDict []), (''{u}a'', VStr ''x'')])]"
  by code_simp

subsection \<open>Containers of the wrong shape\<close>

lemma set_attrs_None: "set_attrs opts avs None = (if avs = [] then Inr None else Inl AttributeError)"
  by (cases avs) (auto simp: set_attr_def)

lemma efd_items_None:
  "efd_items opts items None = Inr None \<or> (\<exists>e. efd_items opts items None = Inl e)"
  by (cases items) (auto simp: append_def split: sum.splits)

lemma efd_nodes_None:
  "efd_nodes opts nodes None = Inr None \<or> (\<exists>e. efd_nodes opts nodes None = Inl e)"
proof (induction nodes)
  case Nil
  then show ?case by simp
next
  case (Cons n ns)
  show ?case
  proof (cases n)
    case (VDict items)
    then show ?thesis using Cons efd_items_None [of opts items] by auto
  qed simp_all
qed

lemma efd_None:
  "elem_from_descendants opts v None = Inr None \<or> (\<exists>e. elem_from_descendants opts v None = Inl e)"
  using efd_nodes_None by (cases v) auto

lemma efd_nodes_not_dict:
  "\<not> list_all is_dict_like nodes \<Longrightarrow> \<exists>e. efd_nodes opts nodes parent = Inl e"
proof (induction nodes arbitrary: parent)
  case Nil
  then show ?case by simp
next
  case (Cons n ns)
  show ?case
  proof (cases n)
    case (VDict items)
    then have "\<not> list_all is_dict_like ns" using Cons.prems by simp
    then show ?thesis using VDict Cons.IH by (cases "efd_items opts items parent") auto
  qed simp_all
qed

lemma c2e_items_markers_None:
  "attrs_key opts \<noteq> text_key opts \<Longrightarrow>
   set (map fst items) \<subseteq> {attrs_key opts, text_key opts, children_key opts} \<Longrightarrow>
   (c2e_items opts items None = Inr None \<and> text_key opts \<notin> set (map fst items))
   \<or> (\<exists>e. c2e_items opts items None = Inl e)"
proof (induction items)
  case Nil
  then show ?case by simp
next
  case (Cons kv items)
  obtain k v where kv: "kv = (k, v)" by (cases kv)
  have k: "k = attrs_key opts \<or> k = text_key opts \<or> k = children_key opts"
    using Cons.prems kv by simp
  have IH: "(c2e_items opts items None = Inr None \<and> text_key opts \<notin> set (map fst items))
     \<or> (\<exists>e. c2e_items opts items None = Inl e)"
    using Cons by simp
  show ?case
  proof (cases "k = attrs_key opts")
    case True
    then show ?thesis using kv IH Cons.prems(1)
      by (cases v) (auto simp: set_attrs_None set_text_def)
  next
    case na: False
    show ?thesis
    proof (cases "k = text_key opts")
      case True
      then show ?thesis using kv na by (simp add: set_text_def)
    next
      case False
      then have "k = children_key opts" using k na by simp
      then show ?thesis using kv na False IH efd_None [of opts v] by auto
    qed
  qed
qed

lemma c2e_items_append:
  "c2e_items opts (xs @ ys) parent
   = (case c2e_items opts xs parent of Inl e \<Rightarrow> Inl e | Inr p \<Rightarrow> c2e_items opts ys p)"
proof (induction xs arbitrary: parent)
  case Nil
  then show ?case by simp
next
  case (Cons x xs)
  obtain k v where x: "x = (k, v)" by (cases x)
  show ?case
    unfolding x using Cons.IH by (simp split: sum.splits)
qed

lemma c2e_items_children:
  assumes "children_key opts \<noteq> attrs_key opts" "children_key opts \<noteq> text_key opts"
  shows "c2e_items opts (pre @ (children_key opts, v) # rest) parent
   = (case c2e_items opts pre parent of
        Inl e \<Rightarrow> Inl e
      | Inr p \<Rightarrow> (case elem_from_descendants opts v p of
                    Inl e \<Rightarrow> Inl e
                  | Inr p' \<Rightarrow> c2e_items opts rest p'))"
  using assms by (simp add: c2e_items_append split: sum.splits)

lemma efd_scalar:
  "v = VNone \<or> v = VBool b \<or> v = VInt i \<Longrightarrow> elem_from_descendants opts v p = Inl TypeError"
  by auto

lemma efd_nonempty:
  "(v = VStr s \<and> s \<noteq> []) \<or> (v = VDict d \<and> d \<noteq> []) \<Longrightarrow>
   elem_from_descendants opts v p = Inl AttributeError"
  by auto

lemma efd_empty:
  "v = VStr [] \<or> v = VDict [] \<Longrightarrow> elem_from_descendants opts v p = Inr p"
  by auto

text \<open>
  C5, as the code has it (for marker keys that differ from one another): there is no
  error of its own for a container of the wrong shape.
  \<^item> A top-level object that is not a mapping raises nothing and returns no tree.
  \<^item> A mapping is processed entry by entry, so an entry before the children marker
    that raises, raises first.  Once the entries before it are processed without an
    exception, a value under the children marker that is \<open>None\<close>, a boolean or an
    integer raises \<open>TypeError\<close>, and a non-empty string or mapping raises
    \<open>AttributeError\<close>.  Whatever the entries before it do, the call raises an exception
    when the value under the children marker is one of these or a list with a member
    that is not a mapping.  An empty string or an empty mapping under the children
    marker is taken as no children: the call does what it does without that entry.
  \<^item> A top-level mapping with marker keys only either raises an exception or, when it
    has no text marker, may return a tree without a root element.
\<close>

theorem no_shape_error:
  assumes "attrs_key (complement_tag_options opts) \<noteq> text_key (complement_tag_options opts)"
    and "children_key (complement_tag_options opts) \<noteq> attrs_key (complement_tag_options opts)"
    and "children_key (complement_tag_options opts) \<noteq> text_key (complement_tag_options opts)"
  shows "(\<not> is_dict_like obj \<longrightarrow> container_to_etree opts obj None = Inr (None, None))
    \<and> (c2e_items (complement_tag_options opts) pre parent = Inl x \<longrightarrow>
         container_to_etree opts
           (VDict (pre @ (children_key (complement_tag_options opts), v) # rest)) parent
         = Inl x)
    \<and> (c2e_items (complement_tag_options opts) pre parent = Inr p
         \<and> (v = VNone \<or> v = VBool b \<or> v = VInt i) \<longrightarrow>
         container_to_etree opts
           (VDict (pre @ (children_key (complement_tag_options opts), v) # rest)) parent
         = Inl TypeError)
    \<and> (c2e_items (complement_tag_options opts) pre parent = Inr p
         \<and> ((v = VStr s \<and> s \<noteq> []) \<or> (v = VDict d \<and> d \<noteq> [])) \<longrightarrow>
         container_to_etree opts
           (VDict (pre @ (children_key (complement_tag_options opts), v) # rest)) parent
         = Inl AttributeError)
    \<and> (v = VNone \<or> v = VBool b \<or> v = VInt i \<or> (v = VStr s \<and> s \<noteq> [])
           \<or> (v = VDict d \<and> d \<noteq> [])
           \<or> (v = VList nodes \<and> \<not> list_all is_dict_like nodes) \<longrightarrow>
         (\<exists>e. container_to_etree opts
                (VDict (pre @ (children_key (complement_tag_options opts), v) # rest)) parent
              = Inl e))
    \<and> (v = VStr [] \<or> v = VDict [] \<longrightarrow>
         container_to_etree opts
           (VDict (pre @ (children_key (complement_tag_options opts), v) # rest)) parent
         = container_to_etree opts (VDict (pre @ rest)) parent)
    \<and> (set (map fst items) \<subseteq> {attrs_key (complement_tag_options opts),
            text_key (complement_tag_options opts), children_key (complement_tag_options opts)} \<longrightarrow>
         (container_to_etree opts (VDict items) None = Inr (None, Some (ElementTree None))
            \<and> text_key (complement_tag_options opts) \<notin> set (map fst items))
         \<or> (\<exists>e. container_to_etree opts (VDict items) None = Inl e))"
proof -
  let ?o = "complement_tag_options opts"
  let ?m = "VDict (pre @ (children_key ?o, v) # rest)"
  note ch = c2e_items_children [OF assms(2,3), of pre v rest parent]
  have a: "\<not> is_dict_like obj \<longrightarrow> container_to_etree opts obj None = Inr (None, None)"
    by (cases obj) simp_all
  have b: "c2e_items ?o pre parent = Inr p \<and> (v = VNone \<or> v = VBool b \<or> v = VInt i) \<longrightarrow>
         container_to_etree opts ?m parent = Inl TypeError"
    using ch efd_scalar [of v b i ?o p] by auto
  have c: "c2e_items ?o pre parent = Inr p
         \<and> ((v = VStr s \<and> s \<noteq> []) \<or> (v = VDict d \<and> d \<noteq> [])) \<longrightarrow>
         container_to_etree opts ?m parent = Inl AttributeError"
    using ch efd_nonempty [of v s d ?o p] by auto
  have d: "v = VNone \<or> v = VBool b \<or> v = VInt i \<or> (v = VStr s \<and> s \<noteq> [])
           \<or> (v = VDict d \<and> d \<noteq> [])
           \<or> (v = VList nodes \<and> \<not> list_all is_dict_like nodes) \<longrightarrow>
         (\<exists>e. container_to_etree opts ?m parent = Inl e)"
  proof
    assume h: "v = VNone \<or> v = VBool b \<or> v = VInt i \<or> (v = VStr s \<and> s \<noteq> [])
           \<or> (v = VDict d \<and> d \<noteq> [])
           \<or> (v = VList nodes \<and> \<not> list_all is_dict_like nodes)"
    have bad: "\<And>q. \<exists>e. elem_from_descendants ?o v q = Inl e"
    proof -
      fix q
      from h consider "v = VNone \<or> v = VBool b \<or> v = VInt i"
        | "(v = VStr s \<and> s \<noteq> []) \<or> (v = VDict d \<and> d \<noteq> [])"
        | "v = VList nodes \<and> \<not> list_all is_dict_like nodes" by blast
      then show "\<exists>e. elem_from_descendants ?o v q = Inl e"
      proof cases
        case 1
        then show ?thesis using efd_scalar [of v b i ?o q] by blast
      next
        case 2
        then show ?thesis using efd_nonempty [of v s d ?o q] by blast
      next
        case 3
        then show ?thesis using efd_nodes_not_dict [of nodes ?o q] by auto
      qed
    qed
    show "\<exists>e. container_to_etree opts ?m parent = Inl e"
    proof (cases "c2e_items ?o pre parent")
      case (Inl e)
      then show ?thesis using ch by simp
    next
      case (Inr q)
      obtain e where "elem_from_descendants ?o v q = Inl e" using bad by blast
      then show ?thesis using ch Inr by simp
    qed
  qed
  have e: "v = VStr [] \<or> v = VDict [] \<longrightarrow>
         container_to_etree opts ?m parent = container_to_etree opts (VDict (pre @ rest)) parent"
  proof
    assume h: "v = VStr [] \<or> v = VDict []"
    have "c2e_items ?o (pre @ (children_key ?o, v) # rest) parent
        = (case c2e_items ?o pre parent of Inl e \<Rightarrow> Inl e | Inr p \<Rightarrow> c2e_items ?o rest p)"
      unfolding ch
      by (cases "c2e_items ?o pre parent") (simp_all add: efd_empty [OF h])
    then have "c2e_items ?o (pre @ (children_key ?o, v) # rest) parent = c2e_items ?o (pre @ rest) parent"
      using c2e_items_append [of ?o pre rest parent] by simp
    then show "container_to_etree opts ?m parent = container_to_etree opts (VDict (pre @ rest)) parent"
      by simp
  qed
  have f: "set (map fst items) \<subseteq> {attrs_key ?o, text_key ?o, children_key ?o} \<longrightarrow>
         (container_to_etree opts (VDict items) None = Inr (None, Some (ElementTree None))
            \<and> text_key ?o \<notin> set (map fst items))
         \<or> (\<exists>e. container_to_etree opts (VDict items) None = Inl e)"
  proof (cases "set (map fst items) \<subseteq> {attrs_key ?o, text_key ?o, children_key ?o}")
    case True
    then show ?thesis using c2e_items_markers_None [OF assms(1) True] by auto
  next
    case False
    then show ?thesis by simp
  qed
  have g: "c2e_items ?o pre parent = Inl x \<longrightarrow> container_to_etree opts ?m parent = Inl x"
    using ch by simp
  show ?thesis using a b c d e f g by blast
qed

text \<open>
  C5 with the default options: the integer 3 as the top-level object; the mapping
  \<open>{'@attrs': {'x': '1'}, '@children': 3}\<close>, whose first entry is processed without
  an exception; a list with a string member under \<open>@children\<close>; an empty string under
  \<open>@children\<close> after another entry; the mapping \<open>{'@attrs': 1, '@children': 3}\<close>,
  whose first entry raises; and the top-level mapping \<open>{'@text': 'x'}\<close>.
\<close>

theorem no_shape_error_witness:
  "attrs_key (complement_tag_options default_options) \<noteq> text_key (complement_tag_options default_options)
   \<and> children_key (complement_tag_options default_options) = ''@children''
   \<and> container_to_etree default_options (VInt 3) None = Inr (None, None)
   \<and> c2e_items (complement_tag_options default_options) [(''@attrs'', VDict [(''x'', VStr ''1'')])]
         (Some (Elem ''a'' [] VNone []))
       = Inr (Some (Elem ''a'' [(''x'', VStr ''1'')] VNone []))
   \<and> container_to_etree default_options
         (VDict [(''@attrs'', VDict [(''x'', VStr ''1'')]), (''@children'', VInt 3)])
         (Some (Elem ''a'' [] VNone [])) = Inl TypeError
   \<and> (\<exists>e. container_to_etree default_options
              (VDict [(''@attrs'', VDict [(''x'', VStr ''1'')]), (''@children'', VList [VStr ''x''])])
              (Some (Elem ''a'' [] VNone [])) = Inl e)
   \<and> container_to_etree default_options (VDict [(''b'', VNone), (''@children'', VStr [])]) None
       = container_to_etree default_options (VDict [(''b'', VNone)]) None
   \<and> c2e_items (complement_tag_options default_options) [(''@attrs'', VInt 1)]
         (Some (Elem ''a'' [] VNone [])) = Inl AttributeError
   \<and> container_to_etree default_options (VDict [(''@attrs'', VInt 1), (''@children'', VInt 3)])
         (Some (Elem ''a'' [] VNone [])) = Inl AttributeError
   \<and> (\<exists>e. container_to_etree default_options (VDict [(''@text'', VStr ''x'')]) None = Inl e)"
proof -
  have k: "attrs_key (complement_tag_options default_options) = ''@attrs''"
    "text_key (complement_tag_options default_options) = ''@text''"
    "children_key (complement_tag_options default_options) = ''@children''"
    by (simp_all add: complement_tag_options_def default_options_def TAGS_def attrs_key_def
        text_key_def children_key_def)
  have h: "attrs_key (complement_tag_options default_options) \<noteq> text_key (complement_tag_options default_options)"
    "children_key (complement_tag_options default_options) \<noteq> attrs_key (complement_tag_options default_options)"
    "children_key (complement_tag_options default_options) \<noteq> text_key (complement_tag_options default_options)"
    using k by simp_all
  have p: "c2e_items (complement_tag_options default_options) [(''@attrs'', VDict [(''x'', VStr ''1'')])]
         (Some (Elem ''a'' [] VNone []))
       = Inr (Some (Elem ''a'' [(''x'', VStr ''1'')] VNone []))"
    by code_simp
  have q: "c2e_items (complement_tag_options default_options) [(''@attrs'', VInt 1)]
         (Some (Elem ''a'' [] VNone [])) = Inl AttributeError"
    by code_simp
  show ?thesis
    using k h(1) p q
      no_shape_error [OF h, where v = "VInt 3" and rest = "[]" and x = AttributeError
        and pre = "[(''@attrs'', VInt 1)]" and parent = "Some (Elem ''a'' [] VNone [])"
        and items = "[]"]
      no_shape_error [OF h, where obj = "VInt 3" and v = "VInt 3" and i = 3 and rest = "[]"
        and pre = "[(''@attrs'', VDict [(''x'', VStr ''1'')])]"
        and p = "Some (Elem ''a'' [(''x'', VStr ''1'')] VNone [])"
        and parent = "Some (Elem ''a'' [] VNone [])" and items = "[(''@text'', VStr ''x'')]"]
      no_shape_error [OF h, where v = "VList [VStr ''x'']" and nodes = "[VStr ''x'']" and rest = "[]"
        and pre = "[(''@attrs'', VDict [(''x'', VStr ''1'')])]"
        and parent = "Some (Elem ''a'' [] VNone [])" and items = "[]"]
      no_shape_error [OF h, where v = "VStr []" and rest = "[]"
        and pre = "[(''b'', VNone)]" and parent = "None" and items = "[]"]
    by (simp del: container_to_etree.simps c2e_items.simps)
qed

text \<open>
  C5 as stated fails at the top-level string \<open>'abc'\<close>, which raises nothing and returns
  \<open>None\<close>, and at the top-level mapping \<open>{'@attrs': {}}\<close> of a marker key only, which
  is accepted and returns a tree without a root element.
\<close>

theorem no_shape_error_counterexample:
  "container_to_etree default_options (VStr ''abc'') None = Inr (None, None)
   \<and> container_to_etree default_options (VDict [(''@attrs'', VDict [])]) None
       = Inr (None, Some (ElementTree None))"
  by code_simp

subsection \<open>The value under the tag\<close>

lemma children_converted:
  assumes "list_all parsed cs"
  shows "sequence (map (elem_to_container o') cs) = Inr (map (\<lambda>c. (converted o' c, stripped c)) cs)"
proof -
  have "\<And>c. c \<in> set cs \<Longrightarrow> elem_to_container o' c = Inr (converted o' c, stripped c)"
  proof -
    fix c assume "c \<in> set cs"
    then have "parsed c" using assms by (simp add: list_all_iff)
    then obtain d where "elem_to_container o' c = Inr (d, stripped c)"
      using elem_to_container_parsed by blast
    then show "elem_to_container o' c = Inr (converted o' c, stripped c)"
      by (simp add: converted_def)
  qed
  then show ?thesis by (rule sequence_map_Inr)
qed

text \<open>The state after the text step.\<close>

lemma text_step:
  assumes "(case tx of VNone \<Rightarrow> True | VStr s \<Rightarrow> True | _ \<Rightarrow> False)"
  shows "(if truthy tx then process_elem_text opts (Elem tg atts tx cs, dic, [])
          else Inr (Elem tg atts tx cs, dic, []))
     = Inr (Elem tg atts (strip_val tx) cs,
            if truthy (strip_val tx) \<and> cs = [] \<and> atts = []
            then dict_set tg (Value (parse_text (strip_val tx) opts)) dic else dic,
            if truthy (strip_val tx) \<and> (cs \<noteq> [] \<or> atts \<noteq> [])
            then [(text_key opts, parse_text (strip_val tx) opts)] else [])"
proof (cases "truthy tx")
  case True
  show ?thesis
    using True py_strip_parsed [OF assms True]
    by (simp add: process_elem_text_def)
next
  case False
  show ?thesis
    using False strip_val_falsy [OF assms False] by simp
qed


lemma parse_attrs_attrib: "parse_attrs (Elem tg atts tx cs) opts = parse_attrs (Elem tg' atts tx' cs') opts"
  by (simp add: parse_attrs_def)

lemma conversion_leaf:
  assumes "parsed (Elem tg atts tx [])" "tweak_ns tg opts = tg"
  shows "elem_to_container opts (Elem tg atts tx [])
    = Inr ([(tg, if has_text (Elem tg atts tx []) \<and> atts = []
                 then parse_text (strip_val tx) opts
                 else if atts = [] then VNone
                 else if \<not> has_text (Elem tg atts tx []) \<and> merge_attrs opts
                 then parse_attrs (Elem tg atts tx []) opts
                 else VDict (marker_entries opts (Elem tg atts tx [])))],
           stripped (Elem tg atts tx []))"
proof -
  have tx: "(case tx of VNone \<Rightarrow> True | VStr s \<Rightarrow> True | _ \<Rightarrow> False)"
    using assms(1) by simp
  show ?thesis
  proof (cases "atts = []")
    case True
    show ?thesis
      unfolding True
      by (simp add: Let_def assms(2) text_step [OF tx, of opts tg "[]" "[]" "[(tg, Subdic)]"]
          has_text_def resolve_def)
  next
    case False
    show ?thesis
      using False
      by (simp add: Let_def assms(2) text_step [OF tx, of opts tg atts "[]" "[(tg, Subdic)]"]
          has_text_def resolve_def process_elem_attrs_def marker_entries_def
          parse_attrs_attrib [of tg atts "strip_val tx" "[]" opts tg tx "[]"])
  qed
qed

lemma conversion_inner:
  assumes "parsed (Elem tg atts tx cs)" "cs \<noteq> []" "tweak_ns tg opts = tg"
  shows "elem_to_container opts (Elem tg atts tx cs)
    = Inr ([(tg,
             if dicts_have_unique_keys
                  ((if merge_attrs opts then atts else marker_entries opts (Elem tg atts tx cs))
                   # cdics_of opts (Elem tg atts tx cs))
             then VDict (merge_dicts
                  ((if merge_attrs opts then atts else marker_entries opts (Elem tg atts tx cs))
                   # cdics_of opts (Elem tg atts tx cs)))
             else if marker_entries opts (Elem tg atts tx cs) = []
             then VList (map VDict (cdics_of opts (Elem tg atts tx cs)))
             else VDict (dict_set (children_key opts)
                           (VList (map VDict (cdics_of opts (Elem tg atts tx cs))))
                           (marker_entries opts (Elem tg atts tx cs))))],
           stripped (Elem tg atts tx cs))"
proof -
  have tx: "(case tx of VNone \<Rightarrow> True | VStr s \<Rightarrow> True | _ \<Rightarrow> False)"
    using assms(1) by simp
  have cs: "list_all parsed cs" using assms(1) by simp
  note seq = children_converted [OF cs, of "opts\<lparr>opt_children := None\<rparr>"]
  note ts = text_step [OF tx, of opts tg atts cs "[(tg, Subdic)]"]
  have me: "marker_entries opts (Elem tg atts tx cs)
      = (if atts \<noteq> []
         then dict_set (attrs_key opts) (parse_attrs (Elem tg atts tx cs) opts)
                (if truthy (strip_val tx) then [(text_key opts, parse_text (strip_val tx) opts)] else [])
         else (if truthy (strip_val tx) then [(text_key opts, parse_text (strip_val tx) opts)] else []))"
    using assms(2) by (simp add: marker_entries_def has_text_def)
  have cd: "cdics_of opts (Elem tg atts tx cs) = map (converted (opts\<lparr>opt_children := None\<rparr>)) cs"
    by (simp add: cdics_of_def)
  show ?thesis
  proof (cases "atts = []")
    case True
    show ?thesis
      unfolding me cd
      using True assms(2)
      by (simp add: Let_def assms(3) seq comp_def
          text_step [OF tx, of opts tg "[]" cs "[(tg, Subdic)]"]
          resolve_def process_children_elems_def)
  next
    case False
    show ?thesis
      unfolding me cd
      using False assms(2)
      by (simp add: Let_def assms(3) seq ts comp_def
          resolve_def process_elem_attrs_def process_children_elems_def
          parse_attrs_attrib [of tg atts "strip_val tx" cs opts tg tx cs])
  qed
qed

lemma tweak_ns_children_option: "tweak_ns tg (opts\<lparr>opt_children := x\<rparr>) = tweak_ns tg opts"
  by (simp add: tweak_ns_def)

lemma single_entry:
  assumes "parsed e" "tweak_ns (tag e) opts = tag e"
  shows "\<exists>v. converted opts e = [(tag e, v)]"
proof (cases e)
  case (Elem tg atts tx cs)
  show ?thesis
  proof (cases "cs = []")
    case True
    then show ?thesis
      using Elem assms conversion_leaf [of tg atts tx opts] by (simp add: converted_def)
  next
    case False
    then show ?thesis
      using Elem assms conversion_inner [of tg atts tx cs opts] by (simp add: converted_def)
  qed
qed

lemma cdics_keys:
  assumes "list_all parsed cs" "list_all (\<lambda>c. tweak_ns (tag c) opts = tag c) cs"
  shows "map (map fst) (map (converted (opts\<lparr>opt_children := None\<rparr>)) cs) = map (\<lambda>c. [tag c]) cs"
proof -
  have "\<And>c. c \<in> set cs \<Longrightarrow> map fst (converted (opts\<lparr>opt_children := None\<rparr>) c) = [tag c]"
  proof -
    fix c assume c: "c \<in> set cs"
    then have "parsed c" "tweak_ns (tag c) (opts\<lparr>opt_children := None\<rparr>) = tag c"
      using assms by (simp_all add: list_all_iff tweak_ns_children_option)
    then obtain v where "converted (opts\<lparr>opt_children := None\<rparr>) c = [(tag c, v)]"
      using single_entry by blast
    then show "map fst (converted (opts\<lparr>opt_children := None\<rparr>) c) = [tag c]" by simp
  qed
  then show ?thesis by simp
qed

lemma unique_keys_distinct:
  "dicts_have_unique_keys dics = distinct (concat (map (map fst) dics))"
proof -
  have "sum_list (map length dics) = length (concat (map (map fst) dics))"
    by (simp add: length_concat comp_def)
  then have "dicts_have_unique_keys dics
      = (card (set (concat (map (map fst) dics))) = length (concat (map (map fst) dics)))"
    by (simp add: dicts_have_unique_keys_def)
  also have "\<dots> = distinct (concat (map (map fst) dics))"
    using card_distinct [of "concat (map (map fst) dics)"]
      distinct_card [of "concat (map (map fst) dics)"] by blast
  finally show ?thesis .
qed

lemma distinct_concat_disjoint:
  "list_all (\<lambda>d. distinct (map fst d)) dics \<Longrightarrow>
   distinct (concat (map (map fst) dics)) = pairwise_disjoint_keys dics"
  by (induction dics) (auto simp: list_all_iff)

lemma unique_iff_disjoint:
  "list_all (\<lambda>d. distinct (map fst d)) dics \<Longrightarrow>
   dicts_have_unique_keys dics = pairwise_disjoint_keys dics"
  by (simp add: unique_keys_distinct distinct_concat_disjoint)

lemma dict_set_new: "k \<notin> set (map fst xs) \<Longrightarrow> dict_set k v xs = xs @ [(k, v)]"
  by (induction xs) auto

lemma dict_of_snoc: "dict_of (xs @ [(k, v)]) = dict_set k v (dict_of xs)"
  by (simp add: dict_of_def)

lemma dict_of_distinct: "distinct (map fst xs) \<Longrightarrow> dict_of xs = xs"
proof (induction xs rule: rev_induct)
  case Nil
  then show ?case by (simp add: dict_of_def)
next
  case (snoc x xs)
  obtain k v where x: "x = (k, v)" by (cases x)
  have "dict_of xs = xs" "k \<notin> set (map fst xs)" using snoc x by auto
  then show ?case using x dict_of_snoc [of xs k v] dict_set_new [of k xs v] by simp
qed

lemma merge_unique:
  "dicts_have_unique_keys dics \<Longrightarrow> merge_dicts dics = concat dics"
  using dict_of_distinct [of "concat dics"]
  by (simp add: unique_keys_distinct merge_dicts_def map_concat)

lemma map_of_dict_set: "map_of (dict_set k v xs) k = Some v"
  by (induction xs) auto

lemma map_of_dict_set_other: "k' \<noteq> k \<Longrightarrow> map_of (dict_set k v xs) k' = map_of xs k'"
  by (induction xs) auto

lemma marker_entries_distinct: "distinct (map fst (marker_entries opts e))"
  by (simp add: marker_entries_def dict_set_distinct Let_def)

lemma dict_set_not_Nil: "dict_set k v xs \<noteq> []"
  by (cases xs) auto

lemma map_of_append_first: "map_of xs k = Some v \<Longrightarrow> map_of (xs @ ys) k = Some v"
  by (simp add: map_add_Some_iff)

lemma children_rule_call:
  assumes "parsed e" "children e \<noteq> []" "tweak_ns (tag e) opts = tag e"
    and "list_all (\<lambda>c. tweak_ns (tag c) opts = tag c) (children e)"
    and "distinct (map fst (attrib e))"
  shows "children_rule opts e (children_key opts)"
proof -
  obtain tg atts tx cs where e: "e = Elem tg atts tx cs" by (cases e)
  let ?cdics = "cdics_of opts e"
  let ?sub = "marker_entries opts e"
  let ?sdics = "(if merge_attrs opts then attrib e else ?sub) # ?cdics"
  have cs: "list_all parsed cs" using assms(1) e by simp
  have keys: "map (map fst) ?cdics = map (\<lambda>c. [tag c]) (children e)"
    using cdics_keys [OF cs, of opts] assms(4) e by (simp add: cdics_of_def)
  have "\<And>d. d \<in> set ?cdics \<Longrightarrow> distinct (map fst d)"
  proof -
    fix d assume "d \<in> set ?cdics"
    then have "map fst d \<in> set (map (map fst) ?cdics)" by simp
    then have "map fst d \<in> set (map (\<lambda>c. [tag c]) (children e))" using keys by simp
    then show "distinct (map fst d)" by auto
  qed
  then have "list_all (\<lambda>d. distinct (map fst d)) ?sdics"
    using assms(5) marker_entries_distinct [of opts e] by (simp add: list_all_iff)
  then have uniq: "dicts_have_unique_keys ?sdics = pairwise_disjoint_keys ?sdics"
    by (rule unique_iff_disjoint)
  have c0: "elem_to_container opts (Elem tg atts tx cs)
    = Inr ([(tg,
             if dicts_have_unique_keys
                  ((if merge_attrs opts then atts else marker_entries opts (Elem tg atts tx cs))
                   # cdics_of opts (Elem tg atts tx cs))
             then VDict (merge_dicts
                  ((if merge_attrs opts then atts else marker_entries opts (Elem tg atts tx cs))
                   # cdics_of opts (Elem tg atts tx cs)))
             else if marker_entries opts (Elem tg atts tx cs) = []
             then VList (map VDict (cdics_of opts (Elem tg atts tx cs)))
             else VDict (dict_set (children_key opts)
                           (VList (map VDict (cdics_of opts (Elem tg atts tx cs))))
                           (marker_entries opts (Elem tg atts tx cs))))],
           stripped (Elem tg atts tx cs))"
    using conversion_inner [of tg atts tx cs opts] assms(1,2,3) unfolding e elem.sel by blast
  have conv: "elem_to_container opts e
     = Inr ([(tag e,
              if dicts_have_unique_keys ?sdics then VDict (merge_dicts ?sdics)
              else if ?sub = [] then VList (map VDict ?cdics)
              else VDict (dict_set (children_key opts) (VList (map VDict ?cdics)) ?sub))],
            stripped e)"
    unfolding e elem.sel by (rule c0)
  have final: "elem_to_container opts e
     = Inr ([(tag e,
              if pairwise_disjoint_keys ?sdics then VDict (concat ?sdics)
              else if ?sub = [] then VList (map VDict ?cdics)
              else VDict (dict_set (children_key opts) (VList (map VDict ?cdics)) ?sub))],
            stripped e)"
  proof (cases "dicts_have_unique_keys ?sdics")
    case True
    have pd: "pairwise_disjoint_keys ?sdics" using uniq True by blast
    show ?thesis unfolding conv by (simp only: True pd if_True merge_unique [OF True])
  next
    case False
    have pd: "\<not> pairwise_disjoint_keys ?sdics" using uniq False by blast
    show ?thesis unfolding conv by (simp only: False pd if_False)
  qed
  show ?thesis unfolding children_rule_def Let_def using keys uniq final by blast
qed

lemma tags_kept_fields:
  "tags_kept opts e = (tweak_ns (tag e) opts = tag e \<and> list_all (tags_kept opts) (children e))"
  by (cases e) simp

lemma attribs_distinct_fields:
  "attribs_distinct e = (distinct (map fst (attrib e)) \<and> list_all attribs_distinct (children e))"
  by (cases e) simp

lemma tags_kept_children_option: "tags_kept (opts\<lparr>opt_children := x\<rparr>) e = tags_kept opts e"
  by (induction e) (simp add: tweak_ns_children_option list_all_iff)

lemma list_all_calls:
  "list_all P (calls opts (Elem tg atts tx cs))
   = (P (opts, Elem tg atts tx cs)
      \<and> (\<forall>c \<in> set cs. list_all P (calls (opts\<lparr>opt_children := None\<rparr>) c)))"
  by (auto simp: list_all_iff)

lemma children_rule_tree:
  assumes "parsed e" "tags_kept opts e" "attribs_distinct e" "children_key opts = ''@children''"
  shows "list_all (\<lambda>(co, x). children x = [] \<or> children_rule co x ''@children'') (calls opts e)"
  using assms
proof (induction e arbitrary: opts)
  case (Elem tg atts tx cs)
  let ?e = "Elem tg atts tx cs"
  let ?o = "opts\<lparr>opt_children := None\<rparr>"
  have k: "children_key ?o = ''@children''" by (simp add: children_key_def)
  have pcs: "list_all parsed cs" using Elem.prems(1) by simp
  have wcs: "list_all (tags_kept opts) cs" using Elem.prems(2) by simp
  have dcs: "list_all attribs_distinct cs" using Elem.prems(3) by simp
  have sub: "\<forall>c \<in> set cs.
      list_all (\<lambda>(co, x). children x = [] \<or> children_rule co x ''@children'') (calls ?o c)"
  proof
    fix c assume c: "c \<in> set cs"
    have pc: "parsed c" using pcs c by (simp add: list_all_iff)
    have dc: "attribs_distinct c" using dcs c by (simp add: list_all_iff)
    have "tags_kept opts c" using wcs c by (simp add: list_all_iff)
    then have wc: "tags_kept ?o c" by (simp only: tags_kept_children_option)
    show "list_all (\<lambda>(co, x). children x = [] \<or> children_rule co x ''@children'') (calls ?o c)"
      by (rule Elem.IH [OF c pc wc dc k])
  qed
  have root: "children ?e = [] \<or> children_rule opts ?e ''@children''"
  proof (cases "cs = []")
    case True
    then show ?thesis by simp
  next
    case False
    have t: "tweak_ns (tag ?e) opts = tag ?e" using Elem.prems(2) by simp
    have d: "distinct (map fst (attrib ?e))" using Elem.prems(3) by simp
    have "\<And>c. c \<in> set cs \<Longrightarrow> tweak_ns (tag c) opts = tag c"
    proof -
      fix c assume "c \<in> set cs"
      then have "tags_kept opts c" using wcs by (simp add: list_all_iff)
      then show "tweak_ns (tag c) opts = tag c" using tags_kept_fields [of opts c] by blast
    qed
    then have tc: "list_all (\<lambda>c. tweak_ns (tag c) opts = tag c) (children ?e)"
      by (simp add: list_all_iff)
    have ne: "children ?e \<noteq> []" using False by simp
    have "children_rule opts ?e (children_key opts)"
      by (rule children_rule_call [OF Elem.prems(1) ne t tc d])
    then show ?thesis unfolding Elem.prems(4) by blast
  qed
  show ?case
    unfolding list_all_calls using root sub by (simp only: split_conv)
qed

text \<open>
  C1, as the code has it, for a tree as the parser builds it (the text of an element is
  \<open>None\<close> or a string, the attribute names of an element are distinct) and tags that
  namespace resolution leaves as they are.  The element that \<open>elem_to_container\<close> is
  called on, if it has at least one child, follows the rule \<open>children_rule\<close> with the
  children marker of the caller's options: each child becomes a mapping of one entry;
  the children's mappings, together with the element's sub-mapping of marker entries or,
  when \<open>merge_attrs\<close> is set, with the attributes-as-mapping in its place, are tested
  for pairwise disjoint key sets; if disjoint, the tag's value is the one flat mapping
  of all their entries; if some key repeats and the sub-mapping is empty, the sequence
  of the children's mappings; otherwise the sub-mapping with that sequence under the
  children marker.  When that marker is the default \<open>@children\<close>, every element of the
  tree that has a child follows the rule, in the call that converts it.
\<close>

theorem children_by_key_disjointness:
  "(parsed e \<and> children e \<noteq> [] \<and> tweak_ns (tag e) opts = tag e
      \<and> list_all (\<lambda>c. tweak_ns (tag c) opts = tag c) (children e)
      \<and> distinct (map fst (attrib e))
    \<longrightarrow> children_rule opts e (children_key opts))
   \<and> (parsed e \<and> tags_kept opts e \<and> attribs_distinct e \<and> children_key opts = ''@children''
    \<longrightarrow> list_all (\<lambda>(co, x). children x = [] \<or> children_rule co x (children_key opts))
          (calls opts e))"
proof -
  have a: "parsed e \<and> children e \<noteq> [] \<and> tweak_ns (tag e) opts = tag e
      \<and> list_all (\<lambda>c. tweak_ns (tag c) opts = tag c) (children e)
      \<and> distinct (map fst (attrib e))
    \<longrightarrow> children_rule opts e (children_key opts)"
    using children_rule_call [of e opts] by blast
  have b: "parsed e \<and> tags_kept opts e \<and> attribs_distinct e \<and> children_key opts = ''@children''
    \<longrightarrow> list_all (\<lambda>(co, x). children x = [] \<or> children_rule co x (children_key opts))
          (calls opts e)"
  proof
    assume h: "parsed e \<and> tags_kept opts e \<and> attribs_distinct e
        \<and> children_key opts = ''@children''"
    then have k: "children_key opts = ''@children''" by blast
    show "list_all (\<lambda>(co, x). children x = [] \<or> children_rule co x (children_key opts))
          (calls opts e)"
      unfolding k using children_rule_tree [of e opts] h by blast
  qed
  show ?thesis using a b by blast
qed

text \<open>
  C1 at \<open><a x="1"> t<b y="2"><c/><c/></b><b/></a>\<close> with the default options: the
  tag \<open>b\<close> repeats below \<open>a\<close>, whose sub-mapping has text and attributes, and the
  tag \<open>c\<close> repeats below the first \<open>b\<close>, whose sub-mapping has attributes.
\<close>

theorem children_by_key_disjointness_witness:
  "parsed (Elem ''a'' [(''x'', VStr ''1'')] (VStr '' t'')
            [Elem ''b'' [(''y'', VStr ''2'')] VNone [Elem ''c'' [] VNone [], Elem ''c'' [] VNone []],
             Elem ''b'' [] VNone []])
   \<and> tags_kept default_options
        (Elem ''a'' [(''x'', VStr ''1'')] (VStr '' t'')
            [Elem ''b'' [(''y'', VStr ''2'')] VNone [Elem ''c'' [] VNone [], Elem ''c'' [] VNone []],
             Elem ''b'' [] VNone []])
   \<and> attribs_distinct
        (Elem ''a'' [(''x'', VStr ''1'')] (VStr '' t'')
            [Elem ''b'' [(''y'', VStr ''2'')] VNone [Elem ''c'' [] VNone [], Elem ''c'' [] VNone []],
             Elem ''b'' [] VNone []])
   \<and> children_key default_options = ''@children''
   \<and> elem_to_container (default_options\<lparr>opt_children := None\<rparr>)
        (Elem ''b'' [(''y'', VStr ''2'')] VNone [Elem ''c'' [] VNone [], Elem ''c'' [] VNone []])
     = Inr ([(''b'', VDict [(''@attrs'', VDict [(''y'', VStr ''2'')]),
                           (''@children'', VList [VDict [(''c'', VNone)], VDict [(''c'', VNone)]])])],
            Elem ''b'' [(''y'', VStr ''2'')] VNone [Elem ''c'' [] VNone [], Elem ''c'' [] VNone []])
   \<and> elem_to_container default_options
        (Elem ''a'' [(''x'', VStr ''1'')] (VStr '' t'')
            [Elem ''b'' [(''y'', VStr ''2'')] VNone [Elem ''c'' [] VNone [], Elem ''c'' [] VNone []],
             Elem ''b'' [] VNone []])
     = Inr ([(''a'', VDict [(''@text'', VStr ''t''), (''@attrs'', VDict [(''x'', VStr ''1'')]),
               (''@children'',
                VList [VDict [(''b'', VDict [(''@attrs'', VDict [(''y'', VStr ''2'')]),
                          (''@children'', VList [VDict [(''c'', VNone)], VDict [(''c'', VNone)]])])],
                       VDict [(''b'', VNone)]])])],
            Elem ''a'' [(''x'', VStr ''1'')] (VStr ''t'')
              [Elem ''b'' [(''y'', VStr ''2'')] VNone [Elem ''c'' [] VNone [], Elem ''c'' [] VNone []],
               Elem ''b'' [] VNone []])"
proof -
  let ?b = "Elem ''b'' [(''y'', VStr ''2'')] VNone [Elem ''c'' [] VNone [], Elem ''c'' [] VNone []]"
  let ?e = "Elem ''a'' [(''x'', VStr ''1'')] (VStr '' t'') [?b, Elem ''b'' [] VNone []]"
  let ?o = "default_options\<lparr>opt_children := None\<rparr>"
  have h: "parsed ?e" "tags_kept default_options ?e" "attribs_distinct ?e"
    "children_key default_options = ''@children''"
    by code_simp+
  have cb: "cdics_of ?o ?b = [[(''c'', VNone)], [(''c'', VNone)]]"
    "marker_entries ?o ?b = [(''@attrs'', VDict [(''y'', VStr ''2'')])]"
    "merge_attrs ?o = False" "stripped ?b = ?b"
    by code_simp+
  have ce: "cdics_of default_options ?e
        = [[(''b'', VDict [(''@attrs'', VDict [(''y'', VStr ''2'')]),
                          (''@children'', VList [VDict [(''c'', VNone)], VDict [(''c'', VNone)]])])],
           [(''b'', VNone)]]"
    "marker_entries default_options ?e
        = [(''@text'', VStr ''t''), (''@attrs'', VDict [(''x'', VStr ''1'')])]"
    "merge_attrs default_options = False"
    "stripped ?e = Elem ''a'' [(''x'', VStr ''1'')] (VStr ''t'') [?b, Elem ''b'' [] VNone []]"
    by code_simp+
  have "list_all (\<lambda>(co, x). children x = [] \<or> children_rule co x (children_key default_options))
          (calls default_options ?e)"
    using children_by_key_disjointness [of ?e default_options] h by blast
  then have "children_rule default_options ?e ''@children''" "children_rule ?o ?b ''@children''"
    unfolding h(4) by simp_all
  then show ?thesis
    using h unfolding children_rule_def Let_def cb ce
    by (simp del: elem_to_container.simps)
qed

text \<open>
  C1 as stated fails at \<open><a x="1"><b>2</b></a>\<close> with \<open>merge_attrs\<close> unset: the
  mapping of the only child has disjoint keys, and the tag's value is not the merge of
  the children's mappings \<open>{'b': '2'}\<close> but that merge together with the attrs marker.
\<close>

theorem children_merge_counterexample:
  "cdics_of default_options (Elem ''a'' [(''x'', VStr ''1'')] VNone [Elem ''b'' [] (VStr ''2'') []])
     = [[(''b'', VStr ''2'')]]
   \<and> pairwise_disjoint_keys [[(''b'', VStr ''2'')]]
   \<and> merge_attrs default_options = False
   \<and> elem_to_container default_options
         (Elem ''a'' [(''x'', VStr ''1'')] VNone [Elem ''b'' [] (VStr ''2'') []])
       = Inr ([(''a'', VDict [(''@attrs'', VDict [(''x'', VStr ''1'')]), (''b'', VStr ''2'')])],
              Elem ''a'' [(''x'', VStr ''1'')] VNone [Elem ''b'' [] (VStr ''2'') []])
   \<and> merge_dicts [[(''b'', VStr ''2'')]] = [(''b'', VStr ''2'')]
   \<and> VDict [(''@attrs'', VDict [(''x'', VStr ''1'')]), (''b'', VStr ''2'')]
       \<noteq> VDict [(''b'', VStr ''2'')]"
  by code_simp

lemma attrs_value_call:
  assumes "parsed e" "attrib e \<noteq> []" "tweak_ns (tag e) opts = tag e"
    and "children_key opts \<noteq> attrs_key opts"
  shows "\<exists>v. elem_to_container opts e = Inr ([(tag e, v)], stripped e)
      \<and> (merge_attrs opts \<and> \<not> has_text e \<and> children e = [] \<longrightarrow> v = parse_attrs e opts)
      \<and> (merge_attrs opts \<and> children e \<noteq> []
           \<and> dicts_have_unique_keys (attrib e # cdics_of opts e)
          \<longrightarrow> v = VDict (merge_dicts (attrib e # cdics_of opts e)))
      \<and> (\<not> (merge_attrs opts \<and> \<not> has_text e \<and> children e = [])
           \<and> \<not> (merge_attrs opts \<and> children e \<noteq> []
                  \<and> dicts_have_unique_keys (attrib e # cdics_of opts e))
          \<longrightarrow> (\<exists>sub. v = VDict sub \<and> map_of sub (attrs_key opts) = Some (parse_attrs e opts)))"
proof -
  obtain tg atts tx cs where e: "e = Elem tg atts tx cs" by (cases e)
  let ?sub = "marker_entries opts e"
  show ?thesis
  proof (cases "children e = []")
    case True
    have me: "\<not> (\<not> has_text e \<and> merge_attrs opts) \<Longrightarrow>
        map_of ?sub (attrs_key opts) = Some (parse_attrs e opts)"
      using assms(2) True by (auto simp: marker_entries_def map_of_dict_set)
    have c0: "elem_to_container opts (Elem tg atts tx [])
    = Inr ([(tg, if has_text (Elem tg atts tx []) \<and> atts = []
                 then parse_text (strip_val tx) opts
                 else if atts = [] then VNone
                 else if \<not> has_text (Elem tg atts tx []) \<and> merge_attrs opts
                 then parse_attrs (Elem tg atts tx []) opts
                 else VDict (marker_entries opts (Elem tg atts tx [])))],
           stripped (Elem tg atts tx []))"
      using conversion_leaf [of tg atts tx opts] assms(1,3) True unfolding e elem.sel by blast
    have cse: "cs = []" using True e by simp
    have c1: "elem_to_container opts e
      = Inr ([(tag e, if has_text e \<and> attrib e = []
                 then parse_text (strip_val (elem_text e)) opts
                 else if attrib e = [] then VNone
                 else if \<not> has_text e \<and> merge_attrs opts
                 then parse_attrs e opts
                 else VDict ?sub)],
             stripped e)"
      unfolding e elem.sel cse by (rule c0)
    have "elem_to_container opts e
      = Inr ([(tag e, if \<not> has_text e \<and> merge_attrs opts then parse_attrs e opts else VDict ?sub)],
             stripped e)"
      using c1 assms(2) by (simp del: elem_to_container.simps)
    then show ?thesis using True me by auto
  next
    case False
    let ?cdics = "cdics_of opts e"
    let ?sdics = "(if merge_attrs opts then attrib e else ?sub) # ?cdics"
    have me: "map_of ?sub (attrs_key opts) = Some (parse_attrs e opts)" "?sub \<noteq> []"
      using assms(2) False by (auto simp: marker_entries_def map_of_dict_set dict_set_not_Nil Let_def)
    have c0: "elem_to_container opts (Elem tg atts tx cs)
    = Inr ([(tg,
             if dicts_have_unique_keys
                  ((if merge_attrs opts then atts else marker_entries opts (Elem tg atts tx cs))
                   # cdics_of opts (Elem tg atts tx cs))
             then VDict (merge_dicts
                  ((if merge_attrs opts then atts else marker_entries opts (Elem tg atts tx cs))
                   # cdics_of opts (Elem tg atts tx cs)))
             else if marker_entries opts (Elem tg atts tx cs) = []
             then VList (map VDict (cdics_of opts (Elem tg atts tx cs)))
             else VDict (dict_set (children_key opts)
                           (VList (map VDict (cdics_of opts (Elem tg atts tx cs))))
                           (marker_entries opts (Elem tg atts tx cs))))],
           stripped (Elem tg atts tx cs))"
      using conversion_inner [of tg atts tx cs opts] assms(1,3) False unfolding e elem.sel by blast
    have c1: "elem_to_container opts e
     = Inr ([(tag e,
              if dicts_have_unique_keys ?sdics then VDict (merge_dicts ?sdics)
              else if ?sub = [] then VList (map VDict ?cdics)
              else VDict (dict_set (children_key opts) (VList (map VDict ?cdics)) ?sub))],
            stripped e)"
      unfolding e elem.sel by (rule c0)
    have conv: "elem_to_container opts e
     = Inr ([(tag e,
              if dicts_have_unique_keys ?sdics then VDict (merge_dicts ?sdics)
              else VDict (dict_set (children_key opts) (VList (map VDict ?cdics)) ?sub))],
            stripped e)"
      using c1 me(2) by (simp del: elem_to_container.simps)
    have nested: "map_of (dict_set (children_key opts) (VList (map VDict ?cdics)) ?sub) (attrs_key opts)
        = Some (parse_attrs e opts)"
      by (simp add: map_of_dict_set_other [OF assms(4) [symmetric]] me(1))
    show ?thesis
    proof (cases "dicts_have_unique_keys ?sdics")
      case u: True
      show ?thesis
      proof (cases "merge_attrs opts")
        case True
        then show ?thesis using conv u False by simp
      next
        case nm: False
        have "merge_dicts ?sdics = ?sub @ concat ?cdics"
          using merge_unique [OF u] nm by simp
        then have "map_of (merge_dicts ?sdics) (attrs_key opts) = Some (parse_attrs e opts)"
          using map_of_append_first [OF me(1)] by simp
        then show ?thesis using conv u nm False by simp
      qed
    next
      case nu: False
      then have "\<not> (merge_attrs opts \<and> dicts_have_unique_keys (attrib e # ?cdics))" by auto
      then show ?thesis using conv nu nested False by auto
    qed
  qed
qed

lemma attrs_rule_call:
  assumes "parsed e" "attrib e \<noteq> []" "tweak_ns (tag e) opts = tag e"
    and "children_key opts \<noteq> attrs_key opts"
  shows "attrs_rule opts e"
  unfolding attrs_rule_def by (rule attrs_value_call [OF assms])

lemma attrs_rule_tree:
  assumes "parsed e" "tags_kept opts e" "children_key opts = ''@children''"
    and "attrs_key opts \<noteq> ''@children''"
  shows "list_all (\<lambda>(co, x). attrib x = [] \<or> attrs_rule co x) (calls opts e)"
  using assms
proof (induction e arbitrary: opts)
  case (Elem tg atts tx cs)
  let ?e = "Elem tg atts tx cs"
  let ?o = "opts\<lparr>opt_children := None\<rparr>"
  have k: "children_key ?o = ''@children''" by (simp add: children_key_def)
  have ka: "attrs_key ?o \<noteq> ''@children''"
    using Elem.prems(4) by (simp add: attrs_key_def)
  have pcs: "list_all parsed cs" using Elem.prems(1) by simp
  have wcs: "list_all (tags_kept opts) cs" using Elem.prems(2) by simp
  have sub: "\<forall>c \<in> set cs. list_all (\<lambda>(co, x). attrib x = [] \<or> attrs_rule co x) (calls ?o c)"
  proof
    fix c assume c: "c \<in> set cs"
    have pc: "parsed c" using pcs c by (simp add: list_all_iff)
    have "tags_kept opts c" using wcs c by (simp add: list_all_iff)
    then have wc: "tags_kept ?o c" by (simp only: tags_kept_children_option)
    show "list_all (\<lambda>(co, x). attrib x = [] \<or> attrs_rule co x) (calls ?o c)"
      by (rule Elem.IH [OF c pc wc k ka])
  qed
  have root: "attrib ?e = [] \<or> attrs_rule opts ?e"
  proof (cases "atts = []")
    case True
    then show ?thesis by simp
  next
    case False
    have t: "tweak_ns (tag ?e) opts = tag ?e" using Elem.prems(2) by simp
    have ne: "attrib ?e \<noteq> []" using False by simp
    have kk: "children_key opts \<noteq> attrs_key opts" using Elem.prems(3,4) by simp
    have "attrs_rule opts ?e"
      by (rule attrs_rule_call [OF Elem.prems(1) ne t kk])
    then show ?thesis by blast
  qed
  show ?case
    unfolding list_all_calls using root sub by (simp only: split_conv)
qed

text \<open>
  C3, as the code has it, for a tree as the parser builds it and tags that namespace
  resolution leaves as they are.  The element that \<open>elem_to_container\<close> is called on,
  if it has attributes and the children marker of the caller's options differs from
  the attrs marker, follows the rule \<open>attrs_rule\<close>: the result has one entry, under the
  tag; with \<open>merge_attrs\<close> set, no text and no children, the value is the
  attributes-as-mapping; with \<open>merge_attrs\<close> set and children whose mappings have keys
  disjoint from one another and from the attribute names, the value is the flat merge
  of the attributes and the children's mappings, with no attrs marker; in every other
  case the value is a mapping that holds the attributes-as-mapping under the attrs
  marker.  When the children marker is the default \<open>@children\<close> and the attrs marker
  differs from it, every element of the tree that has attributes follows the rule, in
  the call that converts it.
\<close>

theorem attributes_placement:
  "(parsed e \<and> attrib e \<noteq> [] \<and> tweak_ns (tag e) opts = tag e
      \<and> children_key opts \<noteq> attrs_key opts
    \<longrightarrow> attrs_rule opts e)
   \<and> (parsed e \<and> tags_kept opts e \<and> children_key opts = ''@children''
      \<and> attrs_key opts \<noteq> ''@children''
    \<longrightarrow> list_all (\<lambda>(co, x). attrib x = [] \<or> attrs_rule co x) (calls opts e))"
  using attrs_rule_call [of e opts] attrs_rule_tree [of e opts] by blast

text \<open>
  C3 at \<open><a x="1">  <b y="2"/></a>\<close> with \<open>merge_attrs\<close> set: the attributes of
  \<open>b\<close>, which has no text and no children, are its value, and the attributes of
  \<open>a\<close> are merged with the mapping of its child.
\<close>

theorem attributes_placement_witness:
  "parsed (Elem ''a'' [(''x'', VStr ''1'')] (VStr ''  '') [Elem ''b'' [(''y'', VStr ''2'')] VNone []])
   \<and> tags_kept (default_options\<lparr>merge_attrs := True\<rparr>)
        (Elem ''a'' [(''x'', VStr ''1'')] (VStr ''  '') [Elem ''b'' [(''y'', VStr ''2'')] VNone []])
   \<and> children_key (default_options\<lparr>merge_attrs := True\<rparr>) = ''@children''
   \<and> attrs_key (default_options\<lparr>merge_attrs := True\<rparr>) \<noteq> ''@children''
   \<and> elem_to_container (default_options\<lparr>merge_attrs := True, opt_children := None\<rparr>)
         (Elem ''b'' [(''y'', VStr ''2'')] VNone [])
       = Inr ([(''b'', VDict [(''y'', VStr ''2'')])], Elem ''b'' [(''y'', VStr ''2'')] VNone [])
   \<and> elem_to_container (default_options\<lparr>merge_attrs := True\<rparr>)
         (Elem ''a'' [(''x'', VStr ''1'')] (VStr ''  '') [Elem ''b'' [(''y'', VStr ''2'')] VNone []])
       = Inr ([(''a'', VDict [(''x'', VStr ''1''), (''b'', VDict [(''y'', VStr ''2'')])])],
              Elem ''a'' [(''x'', VStr ''1'')] (VStr []) [Elem ''b'' [(''y'', VStr ''2'')] VNone []])"
proof -
  let ?b = "Elem ''b'' [(''y'', VStr ''2'')] VNone []"
  let ?e = "Elem ''a'' [(''x'', VStr ''1'')] (VStr ''  '') [?b]"
  let ?o = "default_options\<lparr>merge_attrs := True\<rparr>"
  let ?o' = "default_options\<lparr>merge_attrs := True, opt_children := None\<rparr>"
  have h: "parsed ?e" "tags_kept ?o ?e" "children_key ?o = ''@children''"
    "attrs_key ?o \<noteq> ''@children''"
    by code_simp+
  have fb: "merge_attrs ?o' \<and> \<not> has_text ?b \<and> children ?b = []"
    "parse_attrs ?b ?o' = VDict [(''y'', VStr ''2'')]" "stripped ?b = ?b"
    by code_simp+
  have fe: "merge_attrs ?o \<and> children ?e \<noteq> [] \<and> dicts_have_unique_keys (attrib ?e # cdics_of ?o ?e)"
    "merge_dicts (attrib ?e # cdics_of ?o ?e)
       = [(''x'', VStr ''1''), (''b'', VDict [(''y'', VStr ''2'')])]"
    "stripped ?e = Elem ''a'' [(''x'', VStr ''1'')] (VStr []) [?b]"
    by code_simp+
  have "list_all (\<lambda>(co, x). attrib x = [] \<or> attrs_rule co x) (calls ?o ?e)"
    using attributes_placement [of ?e ?o] h by blast
  then have "attrs_rule ?o ?e" "attrs_rule ?o' ?b"
    by simp_all
  then show ?thesis
    using h fb fe unfolding attrs_rule_def
    by (auto simp del: elem_to_container.simps)
qed

text \<open>
  C3 as stated fails at \<open><a x="1"><b>2</b></a>\<close> with \<open>merge_attrs\<close> set: the
  element has a child, so the claim puts the attributes under \<open>@attrs\<close>, and the
  value is \<open>{'x': '1', 'b': '2'}\<close>.
\<close>

theorem attributes_merged_counterexample:
  "attrs_key (default_options\<lparr>merge_attrs := True\<rparr>) = ''@attrs''
   \<and> elem_to_container (default_options\<lparr>merge_attrs := True\<rparr>)
         (Elem ''a'' [(''x'', VStr ''1'')] VNone [Elem ''b'' [] (VStr ''2'') []])
       = Inr ([(''a'', VDict [(''x'', VStr ''1''), (''b'', VStr ''2'')])],
              Elem ''a'' [(''x'', VStr ''1'')] VNone [Elem ''b'' [] (VStr ''2'') []])
   \<and> map_of [(''x'', VStr ''1''), (''b'', VStr ''2'')] ''@attrs'' = None"
  by code_simp

end
